theory Spec2Isabelle
  imports Main
begin

section \<open>Python values used by the passes\<close>

text \<open>
  Exceptions are values: every function of the source that can raise returns
  \<open>error + 'a\<close>, with \<open>Inl\<close> the exception. Strings are lists of code points below 256.
\<close>

datatype error =
    ValueError
  | IndexError
  | AttributeError
  | TypeError
  | NotImplementedError string

definition ebind :: "error + 'a \<Rightarrow> ('a \<Rightarrow> error + 'b) \<Rightarrow> error + 'b" where
  "ebind m f = (case m of Inl e \<Rightarrow> Inl e | Inr x \<Rightarrow> f x)"

text \<open>\<^verbatim>\<open>xs[i]\<close> for a non-negative index: IndexError out of range.\<close>

definition py_index :: "'a list \<Rightarrow> nat \<Rightarrow> error + 'a" where
  "py_index xs i = (if i < length xs then Inr (xs ! i) else Inl IndexError)"

text \<open>\<^verbatim>\<open>xs[:n]\<close>: a negative bound counts from the end.\<close>

definition py_slice_to :: "'a list \<Rightarrow> int \<Rightarrow> 'a list" where
  "py_slice_to xs n = (if 0 \<le> n then take (nat n) xs else take (nat (int (length xs) + n)) xs)"

text \<open>\<^verbatim>\<open>range(n)\<close> and \<^verbatim>\<open>range(1, n)\<close> as the lists of their indices.\<close>

definition py_range :: "int \<Rightarrow> nat list" where
  "py_range n = [0..<nat n]"

definition py_range1 :: "nat \<Rightarrow> nat list" where
  "py_range1 n = [1..<n]"

text \<open>\<^verbatim>\<open>str(n)\<close> of a non-negative integer, and of any integer.\<close>

definition digit_char :: "nat \<Rightarrow> char" where
  "digit_char d = ''0123456789'' ! d"

function str_nat :: "nat \<Rightarrow> string" where
  "str_nat n = (if n < 10 then [digit_char n] else str_nat (n div 10) @ [digit_char (n mod 10)])"
  by pat_completeness auto
termination
  by (relation "measure id") auto

declare str_nat.simps [simp del]

definition str_int :: "int \<Rightarrow> string" where
  "str_int v = (if v < 0 then CHR ''-'' # str_nat (nat (- v)) else str_nat (nat v))"

text \<open>\<^verbatim>\<open>s.startswith(p)\<close>.\<close>

definition startswith :: "string \<Rightarrow> string \<Rightarrow> bool" where
  "startswith s p = (take (length p) s = p)"

text \<open>\<^verbatim>\<open>s.split(c)\<close> and \<^verbatim>\<open>s.split(c, 1)\<close> for a one-character separator.\<close>

fun split_all :: "char \<Rightarrow> string \<Rightarrow> string \<Rightarrow> string list" where
  "split_all c acc [] = [acc]"
| "split_all c acc (x # xs) =
     (if x = c then acc # split_all c [] xs else split_all c (acc @ [x]) xs)"

definition py_split :: "string \<Rightarrow> char \<Rightarrow> string list" where
  "py_split s c = split_all c [] s"

definition py_split1 :: "string \<Rightarrow> char \<Rightarrow> string list" where
  "py_split1 s c =
     (if c \<in> set s then [takeWhile (\<lambda>x. x \<noteq> c) s, tl (dropWhile (\<lambda>x. x \<noteq> c) s)] else [s])"

text \<open>
  Whitespace as \<^verbatim>\<open>str.strip\<close>, \<^verbatim>\<open>int\<close> and the regular expression class \<^verbatim>\<open>\s\<close>
  see it on code points below 256.
\<close>

definition is_space :: "char \<Rightarrow> bool" where
  "is_space c = (of_char c \<in> {9, 10, 11, 12, 13, 28, 29, 30, 31, 32, 133, 160 :: nat})"

definition strip :: "string \<Rightarrow> string" where
  "strip s = rev (dropWhile is_space (rev (dropWhile is_space s)))"

definition is_digit :: "char \<Rightarrow> bool" where
  "is_digit c = (c \<in> set ''0123456789'')"

text \<open>The value of a digit of \<^verbatim>\<open>int(s, base)\<close>: letters count from ten, in both cases.\<close>

definition digit_value :: "char \<Rightarrow> nat option" where
  "digit_value c =
     (let n = (of_char c :: nat) in
      if 48 \<le> n \<and> n \<le> 57 then Some (n - 48)
      else if 97 \<le> n \<and> n \<le> 122 then Some (n - 87)
      else if 65 \<le> n \<and> n \<le> 90 then Some (n - 55)
      else None)"

text \<open>The number a string of decimal digits stands for, read from the left.\<close>

definition dec_val :: "nat \<Rightarrow> string \<Rightarrow> nat" where
  "dec_val acc xs = foldl (\<lambda>a c. a * 10 + the (digit_value c)) acc xs"

text \<open>
  The digits of an integer literal: single underscores between digits only, every digit
  below the base.
\<close>

fun int_digits :: "nat \<Rightarrow> string \<Rightarrow> nat \<Rightarrow> bool \<Rightarrow> nat option" where
  "int_digits b [] acc pu = (if pu then None else Some acc)"
| "int_digits b (c # cs) acc pu =
     (if c = CHR ''_'' then (if pu then None else int_digits b cs acc True)
      else case digit_value c of
             None \<Rightarrow> None
           | Some d \<Rightarrow> if d < b then int_digits b cs (acc * b + d) False else None)"

text \<open>
  \<^verbatim>\<open>int(s, base)\<close> for base 0, 2, 8, 10 or 16: surrounding whitespace, one sign, the
  prefix of the base, after it one optional underscore, then the digits. In base 0 a
  literal without prefix is decimal and, when it starts with 0, must be zero. Where the
  base is not a power of two, more than 4300 digits are refused (the default of
  \<^verbatim>\<open>sys.set_int_max_str_digits\<close>). \<open>None\<close> is ValueError.
\<close>

definition max_str_digits :: nat where
  "max_str_digits = 4300"

definition has_prefix :: "string \<Rightarrow> string \<Rightarrow> bool" where
  "has_prefix s cs = (case s of a # b # _ \<Rightarrow> a = CHR ''0'' \<and> b \<in> set cs | _ \<Rightarrow> False)"

definition after_prefix :: "string \<Rightarrow> string" where
  "after_prefix s = (let r = drop 2 s in case r of c # r' \<Rightarrow> if c = CHR ''_'' then r' else r | [] \<Rightarrow> r)"

definition int_unsigned :: "nat \<Rightarrow> string \<Rightarrow> nat option" where
  "int_unsigned base s =
     (let (b, body, zero_only) =
        (if base = 0 then
           (if has_prefix s ''xX'' then (16, after_prefix s, False)
            else if has_prefix s ''oO'' then (8, after_prefix s, False)
            else if has_prefix s ''bB'' then (2, after_prefix s, False)
            else if s \<noteq> [] \<and> hd s = CHR ''0'' then (10, s, True)
            else (10, s, False))
         else if base = 16 \<and> has_prefix s ''xX'' then (16, after_prefix s, False)
         else if base = 8 \<and> has_prefix s ''oO'' then (8, after_prefix s, False)
         else if base = 2 \<and> has_prefix s ''bB'' then (2, after_prefix s, False)
         else (base, s, False))
      in case body of
           [] \<Rightarrow> None
         | c # _ \<Rightarrow>
             if c = CHR ''_'' then None
             else if b \<notin> set [2, 4, 8, 16, 32] \<and>
                     max_str_digits < length (filter (\<lambda>x. x \<noteq> CHR ''_'') body) then None
             else case int_digits b body 0 False of
                    None \<Rightarrow> None
                  | Some v \<Rightarrow> if zero_only \<and> v \<noteq> 0 then None else Some v)"

definition py_int :: "nat \<Rightarrow> string \<Rightarrow> int option" where
  "py_int base s =
     (case strip s of
        [] \<Rightarrow> None
      | c # cs \<Rightarrow>
          if c = CHR ''-'' then map_option (\<lambda>v. - int v) (int_unsigned base cs)
          else if c = CHR ''+'' then map_option int (int_unsigned base cs)
          else map_option int (int_unsigned base (c # cs)))"

section \<open>The netlist: \<^verbatim>\<open>netlist.py\<close>\<close>

text \<open>
  A Signal is a wire or register. The field \<^verbatim>\<open>id\<close> (the object's address) is read by
  no pass and is left out. Bit-Blasting never assigns to an attribute of a Signal, so
  there a Signal is its value; Elaboration does, and its gates hold the name under
  which the Signal is stored in the Module.
\<close>

record Signal =
  name :: string
  width :: int
  is_input :: bool
  is_output :: bool
  is_reg :: bool

text \<open>\<^verbatim>\<open>Signal(name, width=1)\<close> with the default flags.\<close>

definition mk_signal :: "string \<Rightarrow> int \<Rightarrow> Signal" where
  "mk_signal n w = \<lparr>name = n, width = w, is_input = False, is_output = False, is_reg = False\<rparr>"

record 'r Gate =
  op_type :: string
  inputs :: "'r list"
  "output" :: 'r

definition mk_gate :: "string \<Rightarrow> 'r list \<Rightarrow> 'r \<Rightarrow> 'r Gate" where
  "mk_gate op ins out = \<lparr>op_type = op, inputs = ins, output = out\<rparr>"

text \<open>
  The dict \<^verbatim>\<open>signals\<close> keeps insertion order: an association list in which storing
  under a present key replaces the value in place and a new key goes to the end.
\<close>

primrec dict_set :: "'k \<Rightarrow> 'v \<Rightarrow> ('k \<times> 'v) list \<Rightarrow> ('k \<times> 'v) list" where
  "dict_set k v [] = [(k, v)]"
| "dict_set k v (p # ps) = (if fst p = k then (k, v) # ps else p # dict_set k v ps)"

record 'r Module =
  "module_name" :: string
  signals :: "(string \<times> Signal) list"
  gates :: "'r Gate list"

definition add_signal :: "Signal \<Rightarrow> ('r, 'a) Module_scheme \<Rightarrow> ('r, 'a) Module_scheme" where
  "add_signal s m = m\<lparr>signals := dict_set (name s) s (signals m)\<rparr>"

definition get_signal :: "('r, 'a) Module_scheme \<Rightarrow> string \<Rightarrow> Signal option" where
  "get_signal m n = map_of (signals m) n"

definition add_gate :: "'r Gate \<Rightarrow> ('r, 'a) Module_scheme \<Rightarrow> ('r, 'a) Module_scheme" where
  "add_gate g m = m\<lparr>gates := gates m @ [g]\<rparr>"

section \<open>Bit-Blasting: \<^verbatim>\<open>stage_bitblast.py\<close>\<close>

subsection \<open>Naming and constant parsing\<close>

definition bit_name :: "string \<Rightarrow> nat \<Rightarrow> string" where
  "bit_name base i = base @ ''_'' @ str_nat i"

definition tmp_name :: "string \<Rightarrow> nat \<Rightarrow> string" where
  "tmp_name prefix idx = ''tmp_'' @ prefix @ ''_'' @ str_nat idx"

text \<open>
  The regular expression \<^verbatim>\<open>^\s*(\d+)\s*'([bBdDhHoO])\s*([0-9a-fA-FxXzZ_]+)\s*$\<close>. Its
  classes are disjoint where they meet, so the greedy match is the only one; the result
  is the three groups.
\<close>

definition is_const_digit :: "char \<Rightarrow> bool" where
  "is_const_digit c = (c \<in> set ''0123456789abcdefABCDEFxXzZ_'')"

definition const_re_match :: "string \<Rightarrow> (string \<times> char \<times> string) option" where
  "const_re_match s =
     (let s1 = dropWhile is_space s;
          g1 = takeWhile is_digit s1;
          s2 = dropWhile is_space (dropWhile is_digit s1)
      in if g1 = [] then None
         else case s2 of
                q # b # s3 \<Rightarrow>
                  if q = CHR 0x27 \<and> b \<in> set ''bBdDhHoO'' then
                    (let s4 = dropWhile is_space s3;
                         g3 = takeWhile is_const_digit s4;
                         s5 = dropWhile is_space (dropWhile is_const_digit s4)
                     in if g3 \<noteq> [] \<and> s5 = [] then Some (g1, b, g3) else None)
                  else None
              | _ \<Rightarrow> None)"

text \<open>\<^verbatim>\<open>c.lower()\<close> on a letter of the base group.\<close>

definition lower_char :: "char \<Rightarrow> char" where
  "lower_char c =
     (let n = (of_char c :: nat) in if 65 \<le> n \<and> n \<le> 90 then char_of (n + 32) else c)"

text \<open>\<^verbatim>\<open>s.zfill(w)\<close> on a string without sign.\<close>

definition zfill :: "string \<Rightarrow> nat \<Rightarrow> string" where
  "zfill s w = replicate (w - length s) CHR ''0'' @ s"

text \<open>\<^verbatim>\<open>[(v >> i) & 1 for i in range(w)]\<close>: the shift of a negative integer is arithmetic.\<close>

definition int_bits :: "int \<Rightarrow> int \<Rightarrow> int list" where
  "int_bits v w = map (\<lambda>i. (v div 2 ^ i) mod 2) (py_range w)"

definition parse_verilog_const :: "string \<Rightarrow> int \<Rightarrow> error + int list" where
  "parse_verilog_const value0 width_hint =
     (let value = strip value0 in
      case const_re_match value of
        Some (g1, g2, g3) \<Rightarrow>
          (case py_int 10 g1 of
             None \<Rightarrow> Inl ValueError
           | Some w \<Rightarrow>
               (let base = lower_char g2;
                    digits = filter (\<lambda>c. c \<noteq> CHR ''_'') g3;
                    digits_clean = map (\<lambda>c. if c \<in> set ''xXzZ'' then CHR ''0'' else c) digits
                in if base = CHR ''b'' then
                     (let bits_str = zfill digits_clean (nat w);
                          bits = map (\<lambda>c. if c = CHR ''1'' then 1 else 0) (rev bits_str)
                      in Inr (py_slice_to bits w))
                   else
                     (case (if base = CHR ''d'' then py_int 10 digits_clean
                            else if base = CHR ''h'' then py_int 16 digits_clean
                            else if base = CHR ''o'' then py_int 8 digits_clean
                            else Some 0) of
                        None \<Rightarrow> Inl ValueError
                      | Some v \<Rightarrow> Inr (int_bits v w))))
      | None \<Rightarrow>
          (let v = (case py_int 0 value of Some v \<Rightarrow> v | None \<Rightarrow> 0);
               w = max 1 width_hint
           in Inr (int_bits v w)))"

subsection \<open>The state of \<^verbatim>\<open>run\<close>\<close>

text \<open>
  The closures of \<^verbatim>\<open>run\<close> share the Module, \<^verbatim>\<open>bits_map\<close>, \<^verbatim>\<open>new_gates\<close> and
  \<^verbatim>\<open>tmp_idx\<close>: the state extends the Module by the three locals. \<^verbatim>\<open>const0\<close> and
  \<^verbatim>\<open>const1\<close> are assigned once, before any closure runs, and are parameters.
\<close>

record bb_state = "Signal Module" +
  bits_map :: "string \<rightharpoonup> Signal list"
  new_gates :: "Signal Gate list"
  tmp_idx :: nat

text \<open>The Signal made for bit \<open>i\<close> of a bus: width 1, the flags of the parent.\<close>

definition bit_signal :: "Signal \<Rightarrow> nat \<Rightarrow> Signal" where
  "bit_signal sig i =
     \<lparr>name = bit_name (name sig) i, width = 1, is_input = is_input sig,
      is_output = is_output sig, is_reg = is_reg sig\<rparr>"

fun get_bits_loop :: "Signal \<Rightarrow> nat list \<Rightarrow> Signal list \<Rightarrow> bb_state \<Rightarrow> Signal list \<times> bb_state" where
  "get_bits_loop sig [] blist st = (blist, st)"
| "get_bits_loop sig (i # is) blist st =
     (case get_signal st (bit_name (name sig) i) of
        Some b \<Rightarrow> get_bits_loop sig is (blist @ [b]) st
      | None \<Rightarrow>
          (let b = bit_signal sig i
           in get_bits_loop sig is (blist @ [b]) (add_signal b st)))"

definition get_bits :: "Signal \<Rightarrow> bb_state \<Rightarrow> Signal list \<times> bb_state" where
  "get_bits sig st =
     (if width sig = 1 then ([sig], st\<lparr>bits_map := (bits_map st)(name sig \<mapsto> [sig])\<rparr>)
      else case bits_map st (name sig) of
             Some bl \<Rightarrow> (bl, st)
           | None \<Rightarrow>
               (let (blist, st') = get_bits_loop sig (py_range (width sig)) [] st
                in (blist, st'\<lparr>bits_map := (bits_map st')(name sig \<mapsto> blist)\<rparr>)))"

text \<open>The loop \<^verbatim>\<open>for s in list(mod.signals.values()): get_bits(s)\<close>.\<close>

fun precreate :: "Signal list \<Rightarrow> bb_state \<Rightarrow> bb_state" where
  "precreate [] st = st"
| "precreate (s # ss) st = precreate ss (snd (get_bits s st))"

definition const_bits_from_signal ::
  "Signal \<Rightarrow> Signal \<Rightarrow> Signal \<Rightarrow> int \<Rightarrow> bb_state \<Rightarrow> error + Signal list \<times> bb_state" where
  "const_bits_from_signal const0 const1 sig width_hint st =
     (if \<not> startswith (name sig) ''CONST_'' then Inr (get_bits sig st)
      else ebind (py_index (py_split1 (name sig) CHR ''_'') 1) (\<lambda>raw.
           ebind (py_index (py_split raw CHR ''_'') 0) (\<lambda>payload.
           ebind (parse_verilog_const payload width_hint) (\<lambda>bits.
           Inr (map (\<lambda>b. if b = 1 then const1 else const0) bits, st)))))"

definition get_operand_bits ::
  "Signal \<Rightarrow> Signal \<Rightarrow> Signal \<Rightarrow> int \<Rightarrow> bb_state \<Rightarrow> error + Signal list \<times> bb_state" where
  "get_operand_bits const0 const1 sig w st =
     ebind (if startswith (name sig) ''CONST_''
            then const_bits_from_signal const0 const1 sig w st
            else Inr (get_bits sig st)) (\<lambda>(bits, st').
     (let bits' = (if int (length bits) < w
                   then bits @ replicate (nat (w - int (length bits))) const0 else bits)
      in Inr (py_slice_to bits' w, st')))"

definition new_tmp :: "string \<Rightarrow> bb_state \<Rightarrow> Signal \<times> bb_state" where
  "new_tmp prefix st =
     (let nm = tmp_name prefix (tmp_idx st);
          st1 = st\<lparr>tmp_idx := tmp_idx st + 1\<rparr>
      in case get_signal st1 nm of
           Some s \<Rightarrow> (s, st1)
         | None \<Rightarrow> (let s = mk_signal nm 1 in (s, add_signal s st1)))"

text \<open>The constructors of the 1-bit primitives append to \<^verbatim>\<open>new_gates\<close>.\<close>

definition emit :: "Signal Gate \<Rightarrow> bb_state \<Rightarrow> bb_state" where
  "emit g st = st\<lparr>new_gates := new_gates st @ [g]\<rparr>"

definition XOR2 :: "Signal \<Rightarrow> Signal \<Rightarrow> Signal \<Rightarrow> bb_state \<Rightarrow> bb_state" where
  "XOR2 a b out = emit (mk_gate ''XOR'' [a, b] out)"

definition AND2 :: "Signal \<Rightarrow> Signal \<Rightarrow> Signal \<Rightarrow> bb_state \<Rightarrow> bb_state" where
  "AND2 a b out = emit (mk_gate ''AND'' [a, b] out)"

definition OR2 :: "Signal \<Rightarrow> Signal \<Rightarrow> Signal \<Rightarrow> bb_state \<Rightarrow> bb_state" where
  "OR2 a b out = emit (mk_gate ''OR'' [a, b] out)"

definition NOT1 :: "Signal \<Rightarrow> Signal \<Rightarrow> bb_state \<Rightarrow> bb_state" where
  "NOT1 a out = emit (mk_gate ''NOT'' [a] out)"

definition MUX2 :: "Signal \<Rightarrow> Signal \<Rightarrow> Signal \<Rightarrow> Signal \<Rightarrow> bb_state \<Rightarrow> bb_state" where
  "MUX2 sel d1 d0 out = emit (mk_gate ''MUX'' [sel, d1, d0] out)"

definition DFF :: "Signal \<Rightarrow> Signal \<Rightarrow> Signal \<Rightarrow> bb_state \<Rightarrow> bb_state" where
  "DFF d clk q = emit (mk_gate ''DFF'' [d, clk] q)"

subsection \<open>Lowering of one gate\<close>

text \<open>AND, OR, XOR on buses: one primitive of the same type per bit.\<close>

fun bitwise_loop ::
  "(Signal \<Rightarrow> Signal \<Rightarrow> Signal \<Rightarrow> bb_state \<Rightarrow> bb_state) \<Rightarrow>
   Signal list \<Rightarrow> Signal list \<Rightarrow> Signal list \<Rightarrow> nat list \<Rightarrow> bb_state \<Rightarrow> error + bb_state" where
  "bitwise_loop constructor a_bits b_bits out_bits [] st = Inr st"
| "bitwise_loop constructor a_bits b_bits out_bits (i # is) st =
     ebind (py_index a_bits i) (\<lambda>a.
     ebind (py_index b_bits i) (\<lambda>b.
     ebind (py_index out_bits i) (\<lambda>out.
     bitwise_loop constructor a_bits b_bits out_bits is (constructor a b out st))))"

definition lower_bitwise :: "Signal \<Rightarrow> Signal \<Rightarrow> Signal Gate \<Rightarrow> bb_state \<Rightarrow> error + bb_state" where
  "lower_bitwise const0 const1 g st =
     (case inputs g of
        [a, b] \<Rightarrow>
          (let out = output g; w = width out in
           ebind (get_operand_bits const0 const1 a w st) (\<lambda>(a_bits, st1).
           ebind (get_operand_bits const0 const1 b w st1) (\<lambda>(b_bits, st2).
           (let (out_bits, st3) = get_bits out st2;
                constructor = (if op_type g = ''XOR'' then XOR2
                               else if op_type g = ''AND'' then AND2 else OR2)
            in bitwise_loop constructor a_bits b_bits out_bits (py_range w) st3))))
      | _ \<Rightarrow> Inl ValueError)"

text \<open>EQ: an XNOR per bit, then the AND reduction, then the buffering AND.\<close>

fun eq_loop ::
  "Signal list \<Rightarrow> Signal list \<Rightarrow> nat list \<Rightarrow> Signal list \<Rightarrow> bb_state \<Rightarrow>
   error + Signal list \<times> bb_state" where
  "eq_loop a_bits b_bits [] eq_bits st = Inr (eq_bits, st)"
| "eq_loop a_bits b_bits (i # is) eq_bits st =
     (let (t_xor, st1) = new_tmp ''xor_eq'' st;
          (t_xnor, st2) = new_tmp ''xnor_eq'' st1
      in ebind (py_index a_bits i) (\<lambda>a.
         ebind (py_index b_bits i) (\<lambda>b.
         eq_loop a_bits b_bits is (eq_bits @ [t_xnor]) (NOT1 t_xor t_xnor (XOR2 a b t_xor st2)))))"

fun and_red_loop ::
  "Signal list \<Rightarrow> nat list \<Rightarrow> Signal \<Rightarrow> bb_state \<Rightarrow> error + Signal \<times> bb_state" where
  "and_red_loop eq_bits [] cur st = Inr (cur, st)"
| "and_red_loop eq_bits (i # is) cur st =
     (let (next_tmp, st1) = new_tmp ''and_red'' st
      in ebind (py_index eq_bits i) (\<lambda>e.
         and_red_loop eq_bits is next_tmp (AND2 cur e next_tmp st1)))"

text \<open>\<^verbatim>\<open>AND2(x, const1, get_bits(out)[0])\<close>, the last call of each branch of the reduction.\<close>

definition buffer_to_out :: "Signal \<Rightarrow> Signal \<Rightarrow> Signal \<Rightarrow> bb_state \<Rightarrow> error + bb_state" where
  "buffer_to_out x const1 out st =
     (let (out_bits, st1) = get_bits out st
      in ebind (py_index out_bits 0) (\<lambda>ob. Inr (AND2 x const1 ob st1)))"

definition lower_eq :: "Signal \<Rightarrow> Signal \<Rightarrow> Signal Gate \<Rightarrow> bb_state \<Rightarrow> error + bb_state" where
  "lower_eq const0 const1 g st =
     (case inputs g of
        [a, b] \<Rightarrow>
          (let out = output g; w = max (width a) (width b) in
           ebind (get_operand_bits const0 const1 a w st) (\<lambda>(a_bits, st1).
           ebind (get_operand_bits const0 const1 b w st1) (\<lambda>(b_bits, st2).
           ebind (eq_loop a_bits b_bits (py_range w) [] st2) (\<lambda>(eq_bits, st3).
           if eq_bits = [] then buffer_to_out const1 const1 out st3
           else if length eq_bits = 1 then
             ebind (py_index eq_bits 0) (\<lambda>e. buffer_to_out e const1 out st3)
           else
             ebind (py_index eq_bits 0) (\<lambda>e.
             ebind (and_red_loop eq_bits (py_range1 (length eq_bits)) e st3) (\<lambda>(cur, st4).
             buffer_to_out cur const1 out st4))))))
      | _ \<Rightarrow> Inl ValueError)"

text \<open>MUX on buses: the select is bit 0 of the selector, one primitive MUX per bit.\<close>

fun mux_loop ::
  "Signal \<Rightarrow> Signal list \<Rightarrow> Signal list \<Rightarrow> Signal list \<Rightarrow> nat list \<Rightarrow> bb_state \<Rightarrow>
   error + bb_state" where
  "mux_loop sel_bit t_bits f_bits out_bits [] st = Inr st"
| "mux_loop sel_bit t_bits f_bits out_bits (i # is) st =
     ebind (py_index t_bits i) (\<lambda>t.
     ebind (py_index f_bits i) (\<lambda>f.
     ebind (py_index out_bits i) (\<lambda>out.
     mux_loop sel_bit t_bits f_bits out_bits is (MUX2 sel_bit t f out st))))"

definition lower_mux :: "Signal \<Rightarrow> Signal \<Rightarrow> Signal Gate \<Rightarrow> bb_state \<Rightarrow> error + bb_state" where
  "lower_mux const0 const1 g st =
     (case inputs g of
        [sel, t_in, f_in] \<Rightarrow>
          (let out = output g; w = width out;
               (sel_bits, st1) = get_bits sel st
           in ebind (py_index sel_bits 0) (\<lambda>sel_bit.
              ebind (get_operand_bits const0 const1 t_in w st1) (\<lambda>(t_bits, st2).
              ebind (get_operand_bits const0 const1 f_in w st2) (\<lambda>(f_bits, st3).
              (let (out_bits, st4) = get_bits out st3
               in mux_loop sel_bit t_bits f_bits out_bits (py_range w) st4)))))
      | _ \<Rightarrow> Inl ValueError)"

text \<open>ADD: the ripple-carry loop; the carry of the last bit is dropped.\<close>

fun add_loop ::
  "Signal list \<Rightarrow> Signal list \<Rightarrow> Signal list \<Rightarrow> nat list \<Rightarrow> Signal \<Rightarrow> bb_state \<Rightarrow>
   error + bb_state" where
  "add_loop a_bits b_bits out_bits [] carry st = Inr st"
| "add_loop a_bits b_bits out_bits (i # is) carry st =
     (let (t1, st1) = new_tmp ''xor'' st
      in ebind (py_index a_bits i) (\<lambda>a.
         ebind (py_index b_bits i) (\<lambda>b.
         (let st2 = XOR2 a b t1 st1
          in ebind (py_index out_bits i) (\<lambda>sbit.
             (let st3 = XOR2 t1 carry sbit st2;
                  (t_ab, st4) = new_tmp ''and'' st3;
                  (t_ac, st5) = new_tmp ''and'' st4;
                  (t_bc, st6) = new_tmp ''and'' st5;
                  st7 = AND2 a b t_ab st6;
                  st8 = AND2 a carry t_ac st7;
                  st9 = AND2 b carry t_bc st8;
                  (t_or1, st10) = new_tmp ''or'' st9;
                  st11 = OR2 t_ab t_ac t_or1 st10;
                  (cnext, st12) = new_tmp ''or'' st11;
                  st13 = OR2 t_or1 t_bc cnext st12
              in add_loop a_bits b_bits out_bits is cnext st13))))))"

definition lower_add :: "Signal \<Rightarrow> Signal \<Rightarrow> Signal Gate \<Rightarrow> bb_state \<Rightarrow> error + bb_state" where
  "lower_add const0 const1 g st =
     (case inputs g of
        [a, b] \<Rightarrow>
          (let out = output g; w = width out in
           ebind (get_operand_bits const0 const1 a w st) (\<lambda>(a_bits, st1).
           ebind (get_operand_bits const0 const1 b w st1) (\<lambda>(b_bits, st2).
           (let (out_bits, st3) = get_bits out st2
            in add_loop a_bits b_bits out_bits (py_range w) const0 st3))))
      | _ \<Rightarrow> Inl ValueError)"

text \<open>DFF_EN_RST: per bit the enable MUX, the reset MUX, and the primitive DFF.\<close>

fun dff_loop ::
  "Signal list \<Rightarrow> Signal list \<Rightarrow> Signal list \<Rightarrow> Signal list \<Rightarrow> Signal \<Rightarrow> Signal \<Rightarrow> Signal \<Rightarrow>
   nat list \<Rightarrow> bb_state \<Rightarrow> error + bb_state" where
  "dff_loop d_en_bits d_rst_bits q_old_bits q_bits en_b rst_b clk_b [] st = Inr st"
| "dff_loop d_en_bits d_rst_bits q_old_bits q_bits en_b rst_b clk_b (i # is) st =
     (let (mux_en, st1) = new_tmp ''mux'' st
      in ebind (py_index d_en_bits i) (\<lambda>d_en.
         ebind (py_index q_old_bits i) (\<lambda>q_old.
         (let st2 = MUX2 en_b d_en q_old mux_en st1;
              (mux_rst, st3) = new_tmp ''mux'' st2
          in ebind (py_index d_rst_bits i) (\<lambda>d_rst.
             (let st4 = MUX2 rst_b d_rst mux_en mux_rst st3
              in ebind (py_index q_bits i) (\<lambda>q.
                 dff_loop d_en_bits d_rst_bits q_old_bits q_bits en_b rst_b clk_b is
                   (DFF mux_rst clk_b q st4))))))))"

definition lower_dff_en_rst ::
  "Signal \<Rightarrow> Signal \<Rightarrow> Signal Gate \<Rightarrow> bb_state \<Rightarrow> error + bb_state" where
  "lower_dff_en_rst const0 const1 g st =
     (case inputs g of
        [d_en, q_old, en, d_rst, rst, clk] \<Rightarrow>
          (let q = output g; w = width q in
           ebind (get_operand_bits const0 const1 d_en w st) (\<lambda>(d_en_bits, st1).
           ebind (get_operand_bits const0 const1 d_rst w st1) (\<lambda>(d_rst_bits, st2).
           ebind (get_operand_bits const0 const1 q_old w st2) (\<lambda>(q_old_bits, st3).
           (let (q_bits, st4) = get_bits q st3;
                (en_bits, st5) = get_bits en st4
            in ebind (py_index en_bits 0) (\<lambda>en_b.
               (let (rst_bits, st6) = get_bits rst st5
                in ebind (py_index rst_bits 0) (\<lambda>rst_b.
                   (let (clk_bits, st7) = get_bits clk st6
                    in ebind (py_index clk_bits 0) (\<lambda>clk_b.
                       dff_loop d_en_bits d_rst_bits q_old_bits q_bits en_b rst_b clk_b
                         (py_range w) st7))))))))))
      | _ \<Rightarrow> Inl ValueError)"

text \<open>NOT and BUF pass through on bit 0; BUF is an AND with logic-1.\<close>

definition lower_passthrough :: "Signal \<Rightarrow> Signal Gate \<Rightarrow> bb_state \<Rightarrow> error + bb_state" where
  "lower_passthrough const1 g st =
     ebind (py_index (inputs g) 0) (\<lambda>inp.
     (let out = output g in
      if op_type g = ''NOT'' then
        (let (in_bits, st1) = get_bits inp st
         in ebind (py_index in_bits 0) (\<lambda>i0.
            (let (out_bits, st2) = get_bits out st1
             in ebind (py_index out_bits 0) (\<lambda>o0. Inr (NOT1 i0 o0 st2)))))
      else if op_type g = ''BUF'' then
        (let (in_bits, st1) = get_bits inp st
         in ebind (py_index in_bits 0) (\<lambda>i0. buffer_to_out i0 const1 out st1))
      else Inr st))"

definition lower_gate :: "Signal \<Rightarrow> Signal \<Rightarrow> Signal Gate \<Rightarrow> bb_state \<Rightarrow> error + bb_state" where
  "lower_gate const0 const1 g st =
     (let op = op_type g in
      if op \<in> set [''AND'', ''OR'', ''XOR''] then lower_bitwise const0 const1 g st
      else if op = ''EQ'' then lower_eq const0 const1 g st
      else if op = ''MUX'' then lower_mux const0 const1 g st
      else if op = ''ADD'' then lower_add const0 const1 g st
      else if op = ''DFF_EN_RST'' then lower_dff_en_rst const0 const1 g st
      else if op \<in> set [''NOT'', ''BUF''] then lower_passthrough const1 g st
      else Inl (NotImplementedError op))"

fun lower_gates :: "Signal \<Rightarrow> Signal \<Rightarrow> Signal Gate list \<Rightarrow> bb_state \<Rightarrow> error + bb_state" where
  "lower_gates const0 const1 [] st = Inr st"
| "lower_gates const0 const1 (g # gs) st =
     ebind (lower_gate const0 const1 g st) (lower_gates const0 const1 gs)"

subsection \<open>The pass\<close>

text \<open>
  \<^verbatim>\<open>run(mod)\<close>. The Module is changed in place and returned here; the debug dump written
  at the end is not part of the model.
\<close>

definition ensure_const :: "string \<Rightarrow> Signal Module \<Rightarrow> Signal \<times> Signal Module" where
  "ensure_const n m =
     (case get_signal m n of
        Some s \<Rightarrow> (s, m)
      | None \<Rightarrow> (let s = mk_signal n 1 in (s, add_signal s m)))"

definition init_state :: "Signal Module \<Rightarrow> bb_state" where
  "init_state m =
     \<lparr>module_name = module_name m, signals = signals m, gates = gates m,
      bits_map = Map.empty, new_gates = [], tmp_idx = 0\<rparr>"

definition run :: "Signal Module \<Rightarrow> error + Signal Module" where
  "run m =
     (let (const0, m1) = ensure_const ''CONST0'' m;
          (const1, m2) = ensure_const ''CONST1'' m1;
          st0 = init_state m2;
          st1 = precreate (map snd (signals st0)) st0
      in ebind (lower_gates const0 const1 (gates st1) st1) (\<lambda>st.
         Inr \<lparr>module_name = module_name st, signals = signals st, gates = new_gates st\<rparr>))"

section \<open>The meaning of a primitive network\<close>

text \<open>
  \<^verbatim>\<open>Gate.to_dict\<close>: the tag and the names of the Signals, which is what the export reads.
\<close>

definition to_dict :: "Signal Gate \<Rightarrow> string Gate" where
  "to_dict g = \<lparr>op_type = op_type g, inputs = map name (inputs g), output = name (output g)\<rparr>"

text \<open>
  The truth table \<^verbatim>\<open>stage_export.py\<close> writes for each combinational primitive, on the
  inputs it reads: NOT \<^verbatim>\<open>0 1\<close>; BUF \<^verbatim>\<open>1 1\<close>; AND \<^verbatim>\<open>11 1\<close>; OR \<^verbatim>\<open>1- 1\<close>, \<^verbatim>\<open>-1 1\<close>;
  XOR \<^verbatim>\<open>10 1\<close>, \<^verbatim>\<open>01 1\<close>; MUX \<^verbatim>\<open>11- 1\<close>, \<^verbatim>\<open>0-1 1\<close>. A DFF is a latch and has no table.
\<close>

definition table :: "string \<Rightarrow> bool list \<Rightarrow> bool option" where
  "table op ins =
     (if op = ''NOT'' then (case ins of a # _ \<Rightarrow> Some (\<not> a) | _ \<Rightarrow> None)
      else if op = ''BUF'' then (case ins of a # _ \<Rightarrow> Some a | _ \<Rightarrow> None)
      else if op = ''AND'' then (case ins of a # b # _ \<Rightarrow> Some (a \<and> b) | _ \<Rightarrow> None)
      else if op = ''OR'' then (case ins of a # b # _ \<Rightarrow> Some (a \<or> b) | _ \<Rightarrow> None)
      else if op = ''XOR'' then (case ins of a # b # _ \<Rightarrow> Some (a \<noteq> b) | _ \<Rightarrow> None)
      else if op = ''MUX'' then
        (case ins of [s, t, f] \<Rightarrow> Some ((s \<and> t) \<or> (\<not> s \<and> f)) | _ \<Rightarrow> None)
      else None)"

text \<open>
  A valuation gives every signal name a value. It satisfies a gate when the output
  carries what the truth table of the gate gives on the inputs, and it is consistent
  with a netlist when it satisfies every gate; the order of the gates plays no part. A
  latch \<^verbatim>\<open>.latch d out re clk\<close> has no table and constrains no value of the cycle: at
  the rising clock edge its output takes the value of its data input \<open>d\<close>.
\<close>

definition gate_holds :: "(string \<Rightarrow> bool) \<Rightarrow> string Gate \<Rightarrow> bool" where
  "gate_holds env g =
     (case table (op_type g) (map env (inputs g)) of
        Some v \<Rightarrow> env (output g) = v
      | None \<Rightarrow> True)"

definition consistent :: "(string \<Rightarrow> bool) \<Rightarrow> string Gate list \<Rightarrow> bool" where
  "consistent env net = list_all (gate_holds env) net"

text \<open>The unsigned value of a bit vector, least significant bit first.\<close>

fun bits_value :: "bool list \<Rightarrow> nat" where
  "bits_value [] = 0"
| "bits_value (b # bs) = (if b then 1 else 0) + 2 * bits_value bs"

text \<open>The gates the pass appended to \<^verbatim>\<open>new_gates\<close> between two states, by name.\<close>

definition emitted :: "bb_state \<Rightarrow> bb_state \<Rightarrow> string Gate list" where
  "emitted st st' = map to_dict (drop (length (new_gates st)) (new_gates st'))"

text \<open>Every Signal of the mapping is stored under its own name, as \<^verbatim>\<open>add_signal\<close> does.\<close>

definition names_ok :: "('r, 'a) Module_scheme \<Rightarrow> bool" where
  "names_ok m = list_all (\<lambda>p. name (snd p) = fst p) (signals m)"

text \<open>
  The ripple-carry network by name: the seven gates of one bit, with the temporaries
  numbered from \<open>k\<close>, and the chain over the bit positions; the carry into the next bit is
  the last temporary of the bit before.
\<close>

definition full_adder :: "string \<Rightarrow> string \<Rightarrow> string \<Rightarrow> string \<Rightarrow> nat \<Rightarrow> string Gate list" where
  "full_adder a b c s k =
     [mk_gate ''XOR'' [a, b] (tmp_name ''xor'' k),
      mk_gate ''XOR'' [tmp_name ''xor'' k, c] s,
      mk_gate ''AND'' [a, b] (tmp_name ''and'' (k + 1)),
      mk_gate ''AND'' [a, c] (tmp_name ''and'' (k + 2)),
      mk_gate ''AND'' [b, c] (tmp_name ''and'' (k + 3)),
      mk_gate ''OR'' [tmp_name ''and'' (k + 1), tmp_name ''and'' (k + 2)] (tmp_name ''or'' (k + 4)),
      mk_gate ''OR'' [tmp_name ''or'' (k + 4), tmp_name ''and'' (k + 3)] (tmp_name ''or'' (k + 5))]"

fun ripple_net ::
  "string list \<Rightarrow> string list \<Rightarrow> string list \<Rightarrow> nat list \<Rightarrow> string \<Rightarrow> nat \<Rightarrow> string Gate list" where
  "ripple_net as bs ss [] c k = []"
| "ripple_net as bs ss (i # is) c k =
     full_adder (as ! i) (bs ! i) c (ss ! i) k @
     ripple_net as bs ss is (tmp_name ''or'' (k + 5)) (k + 6)"

fun carry_out :: "nat list \<Rightarrow> string \<Rightarrow> nat \<Rightarrow> string" where
  "carry_out [] c k = c"
| "carry_out (i # is) c k = carry_out is (tmp_name ''or'' (k + 5)) (k + 6)"

text \<open>
  The equality network by name: an XOR and a NOT per bit, the AND chain over the XNOR
  bits from the second on, and the AND with logic-1 that drives the output.
\<close>

fun xnor_net :: "string list \<Rightarrow> string list \<Rightarrow> nat list \<Rightarrow> nat \<Rightarrow> string Gate list" where
  "xnor_net as bs [] k = []"
| "xnor_net as bs (i # is) k =
     [mk_gate ''XOR'' [as ! i, bs ! i] (tmp_name ''xor_eq'' k),
      mk_gate ''NOT'' [tmp_name ''xor_eq'' k] (tmp_name ''xnor_eq'' (k + 1))] @
     xnor_net as bs is (k + 2)"

fun xnor_names :: "nat list \<Rightarrow> nat \<Rightarrow> string list" where
  "xnor_names [] k = []"
| "xnor_names (i # is) k = tmp_name ''xnor_eq'' (k + 1) # xnor_names is (k + 2)"

fun and_chain :: "string list \<Rightarrow> nat list \<Rightarrow> string \<Rightarrow> nat \<Rightarrow> string Gate list" where
  "and_chain es [] cur k = []"
| "and_chain es (i # is) cur k =
     mk_gate ''AND'' [cur, es ! i] (tmp_name ''and_red'' k) #
     and_chain es is (tmp_name ''and_red'' k) (k + 1)"

fun and_chain_out :: "nat list \<Rightarrow> string \<Rightarrow> nat \<Rightarrow> string" where
  "and_chain_out [] cur k = cur"
| "and_chain_out (i # is) cur k = and_chain_out is (tmp_name ''and_red'' k) (k + 1)"

definition eq_net :: "string list \<Rightarrow> string list \<Rightarrow> nat \<Rightarrow> string \<Rightarrow> string \<Rightarrow> nat \<Rightarrow> string Gate list" where
  "eq_net as bs n c1 out k =
     (let es = xnor_names [0..<n] k; k' = k + 2 * n in
      xnor_net as bs [0..<n] k @
      (if n = 0 then [mk_gate ''AND'' [c1, c1] out]
       else and_chain es [1..<n] (es ! 0) k' @
            [mk_gate ''AND'' [and_chain_out [1..<n] (es ! 0) k', c1] out]))"

text \<open>
  The register network by name: per bit the enable MUX, the reset MUX and the latch.
\<close>

fun dff_net ::
  "string list \<Rightarrow> string list \<Rightarrow> string list \<Rightarrow> string list \<Rightarrow> string \<Rightarrow> string \<Rightarrow> string \<Rightarrow>
   nat list \<Rightarrow> nat \<Rightarrow> string Gate list" where
  "dff_net des drs qos qs en rst clk [] k = []"
| "dff_net des drs qos qs en rst clk (i # is) k =
     [mk_gate ''MUX'' [en, des ! i, qos ! i] (tmp_name ''mux'' k),
      mk_gate ''MUX'' [rst, drs ! i, tmp_name ''mux'' k] (tmp_name ''mux'' (k + 1)),
      mk_gate ''DFF'' [tmp_name ''mux'' (k + 1), clk] (qs ! i)] @
     dff_net des drs qos qs en rst clk is (k + 2)"

section \<open>Properties of a bit-blasted Module\<close>

text \<open>
  The primitives built by the constructors \<^verbatim>\<open>XOR2\<close>, \<^verbatim>\<open>AND2\<close>, \<^verbatim>\<open>OR2\<close>, \<^verbatim>\<open>NOT1\<close>,
  \<^verbatim>\<open>MUX2\<close> and \<^verbatim>\<open>DFF\<close>, with the number of inputs each of them passes.
\<close>

definition prim_gate :: "'r Gate \<Rightarrow> bool" where
  "prim_gate g =
     ((op_type g, length (inputs g)) \<in>
        set [(''AND'', 2), (''OR'', 2), (''XOR'', 2), (''NOT'', 1), (''MUX'', 3), (''DFF'', 2)])"

text \<open>
  The entries the pass stores in \<^verbatim>\<open>signals\<close>: the two constants, the bit of a bus, a
  temporary; each under its own name.
\<close>

definition added_by_pass :: "string \<times> Signal \<Rightarrow> bool" where
  "added_by_pass p =
     (fst p = name (snd p) \<and>
      (snd p = mk_signal ''CONST0'' 1 \<or> snd p = mk_signal ''CONST1'' 1 \<or>
       (\<exists>sig i. snd p = bit_signal sig i) \<or>
       (\<exists>prefix idx. snd p = mk_signal (tmp_name prefix idx) 1)))"

text \<open>One pass after the other on the same state: what the second sees of the first.\<close>

definition step_rel :: "bb_state \<Rightarrow> bb_state \<Rightarrow> bool" where
  "step_rel st st' =
     ((\<exists>ext. signals st' = signals st @ ext \<and> (\<forall>p \<in> set ext. added_by_pass p)) \<and>
      (\<exists>gs. new_gates st' = new_gates st @ gs \<and> (\<forall>g \<in> set gs. prim_gate g)) \<and>
      tmp_idx st \<le> tmp_idx st' \<and> module_name st' = module_name st \<and> gates st' = gates st)"

text \<open>Example Modules: a 2-bit bus alone, and one inverter.\<close>

definition bus_module :: "Signal Module" where
  "bus_module = \<lparr>module_name = ''m'', signals = [(''a'', mk_signal ''a'' 2)], gates = []\<rparr>"

definition bus_module_out :: "Signal Module" where
  "bus_module_out =
     \<lparr>module_name = ''m'',
      signals = [(''a'', mk_signal ''a'' 2), (''CONST0'', mk_signal ''CONST0'' 1),
                 (''CONST1'', mk_signal ''CONST1'' 1), (''a_0'', mk_signal ''a_0'' 1),
                 (''a_1'', mk_signal ''a_1'' 1)],
      gates = []\<rparr>"

definition not_module :: "Signal Module" where
  "not_module =
     \<lparr>module_name = ''inv'',
      signals = [(''a'', mk_signal ''a'' 1), (''y'', mk_signal ''y'' 1)],
      gates = [mk_gate ''NOT'' [mk_signal ''a'' 1] (mk_signal ''y'' 1)]\<rparr>"

definition not_module_out :: "Signal Module" where
  "not_module_out =
     \<lparr>module_name = ''inv'',
      signals = [(''a'', mk_signal ''a'' 1), (''y'', mk_signal ''y'' 1),
                 (''CONST0'', mk_signal ''CONST0'' 1), (''CONST1'', mk_signal ''CONST1'' 1)],
      gates = [mk_gate ''NOT'' [mk_signal ''a'' 1] (mk_signal ''y'' 1)]\<rparr>"

section \<open>Well-formed Modules and the names of the bits\<close>

text \<open>
  The Module that Bit-Blasting is given: \<^verbatim>\<open>signals\<close> is a dict filled by \<^verbatim>\<open>add_signal\<close>,
  so its keys are distinct and every Signal is stored under its own name; and every
  input and output of a gate is a Signal of the mapping.
\<close>

definition gate_ok :: "(string \<times> Signal) list \<Rightarrow> Signal Gate \<Rightarrow> bool" where
  "gate_ok sigs g = list_all (\<lambda>s. map_of sigs (name s) = Some s) (output g # inputs g)"

definition wf_module :: "Signal Module \<Rightarrow> bool" where
  "wf_module m =
     (names_ok m \<and> distinct (map fst (signals m)) \<and> list_all (gate_ok (signals m)) (gates m))"

text \<open>
  The names of the 1-bit Signals that stand for a Signal: its own name at width 1, else
  the name with the bit index appended, least significant bit first.
\<close>

definition bit_names :: "Signal \<Rightarrow> string list" where
  "bit_names sig =
     (if width sig = 1 then [name sig] else map (bit_name (name sig)) (py_range (width sig)))"

text \<open>
  The state of the pass over a Module with the mapping \<open>sigs\<close>: the mapping has only grown,
  and \<^verbatim>\<open>bits_map\<close> holds for a name the bits of the Signal of that name.
\<close>

definition wf_state :: "(string \<times> Signal) list \<Rightarrow> bb_state \<Rightarrow> bool" where
  "wf_state sigs st =
     (names_ok st \<and> (\<exists>ext. signals st = sigs @ ext) \<and>
      (\<forall>n bl. bits_map st n = Some bl \<longrightarrow>
         (\<exists>s. map_of sigs n = Some s \<and> map name bl = bit_names s)))"

text \<open>
  The bit vector an operand carries at width \<open>w\<close> under a valuation, least significant
  bit first: the bits decoded from the name of a literal, the values of the bits of any
  other Signal; extended with zeros or cut to \<open>w\<close> bits as \<^verbatim>\<open>get_operand_bits\<close> does.
\<close>

definition literal_bits :: "Signal \<Rightarrow> int \<Rightarrow> error + int list" where
  "literal_bits sig width_hint =
     ebind (py_index (py_split1 (name sig) CHR ''_'') 1) (\<lambda>raw.
     ebind (py_index (py_split raw CHR ''_'') 0) (\<lambda>payload.
     parse_verilog_const payload width_hint))"

definition fit :: "bool list \<Rightarrow> int \<Rightarrow> bool list" where
  "fit bs w =
     py_slice_to (if int (length bs) < w
                  then bs @ replicate (nat (w - int (length bs))) False else bs) w"

definition operand_val :: "(string \<Rightarrow> bool) \<Rightarrow> Signal \<Rightarrow> int \<Rightarrow> error + bool list" where
  "operand_val env sig w =
     (if startswith (name sig) ''CONST_''
      then ebind (literal_bits sig w) (\<lambda>bits. Inr (fit (map (\<lambda>b. b = 1) bits) w))
      else Inr (fit (map env (bit_names sig)) w))"

section \<open>Every step of the pass extends the signals and the new gates\<close>

lemma ebind_Inr [simp]: "ebind (Inr x) f = f x" by (simp add: ebind_def)
lemma ebind_Inl [simp]: "ebind (Inl e) f = Inl e" by (simp add: ebind_def)

lemma ebind_eq_Inr: "ebind m f = Inr y \<longleftrightarrow> (\<exists>x. m = Inr x \<and> f x = Inr y)"
  by (cases m) simp_all

lemma ebindE: "ebind m f = Inr y \<Longrightarrow> (\<And>x. m = Inr x \<Longrightarrow> f x = Inr y \<Longrightarrow> P) \<Longrightarrow> P"
  by (auto simp: ebind_eq_Inr)

lemma dict_set_fresh: "map_of al k = None \<Longrightarrow> dict_set k v al = al @ [(k, v)]"
  by (induction al) (auto split: if_splits)

lemma step_rel_refl [simp]: "step_rel st st"
  by (simp add: step_rel_def)

lemma step_rel_trans:
  assumes "step_rel a b" and "step_rel b c"
  shows "step_rel a c"
proof -
  from assms(1) obtain e1 g1 where
    1: "signals b = signals a @ e1" "\<forall>p \<in> set e1. added_by_pass p"
       "new_gates b = new_gates a @ g1" "\<forall>g \<in> set g1. prim_gate g"
       "tmp_idx a \<le> tmp_idx b" "module_name b = module_name a" "gates b = gates a"
    unfolding step_rel_def by blast
  from assms(2) obtain e2 g2 where
    2: "signals c = signals b @ e2" "\<forall>p \<in> set e2. added_by_pass p"
       "new_gates c = new_gates b @ g2" "\<forall>g \<in> set g2. prim_gate g"
       "tmp_idx b \<le> tmp_idx c" "module_name c = module_name b" "gates c = gates b"
    unfolding step_rel_def by blast
  have "signals c = signals a @ (e1 @ e2)" "\<forall>p \<in> set (e1 @ e2). added_by_pass p"
       "new_gates c = new_gates a @ (g1 @ g2)" "\<forall>g \<in> set (g1 @ g2). prim_gate g"
    using 1 2 by auto
  moreover have "tmp_idx a \<le> tmp_idx c" "module_name c = module_name a" "gates c = gates a"
    using 1 2 by auto
  ultimately show ?thesis unfolding step_rel_def by blast
qed

lemma step_rel_bits_map [simp]: "step_rel st (st'\<lparr>bits_map := bm\<rparr>) = step_rel st st'"
  by (simp add: step_rel_def)

lemma add_signal_step:
  "get_signal st (name b) = None \<Longrightarrow> added_by_pass (name b, b) \<Longrightarrow> step_rel st (add_signal b st)"
  by (simp add: step_rel_def add_signal_def get_signal_def dict_set_fresh)

lemma get_bits_loop_step:
  "get_bits_loop sig is bl st = (bl', st') \<Longrightarrow> step_rel st st'"
proof (induction "is" arbitrary: bl st)
  case Nil
  then show ?case by simp
next
  case (Cons i "is")
  show ?case
  proof (cases "get_signal st (bit_name (name sig) i)")
    case None
    let ?b = "bit_signal sig i"
    from None Cons.prems have "get_bits_loop sig is (bl @ [?b]) (add_signal ?b st) = (bl', st')"
      by (simp add: Let_def)
    then have "step_rel (add_signal ?b st) st'" by (rule Cons.IH)
    moreover have "step_rel st (add_signal ?b st)"
      using None by (intro add_signal_step) (auto simp: bit_signal_def added_by_pass_def)
    ultimately show ?thesis by (blast intro: step_rel_trans)
  next
    case (Some b)
    with Cons show ?thesis by (simp add: Let_def)
  qed
qed

lemma get_bits_step: "get_bits sig st = (bl, st') \<Longrightarrow> step_rel st st'"
  by (auto simp: get_bits_def split: if_splits option.splits prod.splits dest: get_bits_loop_step)

lemma tmp_idx_step [simp]: "step_rel st (st\<lparr>tmp_idx := Suc (tmp_idx st)\<rparr>)"
  by (simp add: step_rel_def)

lemma new_tmp_step: "new_tmp p st = (s, st') \<Longrightarrow> step_rel st st'"
proof -
  assume a: "new_tmp p st = (s, st')"
  let ?st1 = "st\<lparr>tmp_idx := tmp_idx st + 1\<rparr>"
  let ?nm = "tmp_name p (tmp_idx st)"
  show ?thesis
  proof (cases "get_signal ?st1 ?nm")
    case None
    with a have "st' = add_signal (mk_signal ?nm 1) ?st1"
      by (auto simp: new_tmp_def Let_def)
    moreover have "step_rel ?st1 (add_signal (mk_signal ?nm 1) ?st1)"
      using None by (intro add_signal_step) (auto simp: mk_signal_def added_by_pass_def)
    moreover have "step_rel st ?st1" by simp
    ultimately show ?thesis by (blast intro: step_rel_trans)
  next
    case (Some x)
    with a have "st' = ?st1" by (auto simp: new_tmp_def Let_def)
    then show ?thesis by simp
  qed
qed

lemma emit_step: "prim_gate g \<Longrightarrow> step_rel st (emit g st)"
  by (simp add: step_rel_def emit_def)

lemma prim_steps [simp]:
  "step_rel st (XOR2 a b out st)" "step_rel st (AND2 a b out st)" "step_rel st (OR2 a b out st)"
  "step_rel st (NOT1 a out st)" "step_rel st (MUX2 sel a b out st)" "step_rel st (DFF a b out st)"
  by (simp_all add: XOR2_def AND2_def OR2_def NOT1_def MUX2_def DFF_def emit_step prim_gate_def mk_gate_def)

lemma const_bits_from_signal_step:
  "const_bits_from_signal c0 c1 sig w st = Inr (bl, st') \<Longrightarrow> step_rel st st'"
  by (auto simp: const_bits_from_signal_def ebind_eq_Inr split: if_splits dest: get_bits_step)

lemma get_operand_bits_step:
  "get_operand_bits c0 c1 sig w st = Inr (bl, st') \<Longrightarrow> step_rel st st'"
  by (auto simp: get_operand_bits_def ebind_eq_Inr Let_def split: if_splits
      dest: get_bits_step const_bits_from_signal_step)


lemma prim_step_left:
  "step_rel (XOR2 a b out st) st' \<Longrightarrow> step_rel st st'"
  "step_rel (AND2 a b out st) st' \<Longrightarrow> step_rel st st'"
  "step_rel (OR2 a b out st) st' \<Longrightarrow> step_rel st st'"
  "step_rel (NOT1 a out st) st' \<Longrightarrow> step_rel st st'"
  "step_rel (MUX2 sel a b out st) st' \<Longrightarrow> step_rel st st'"
  "step_rel (DFF a b out st) st' \<Longrightarrow> step_rel st st'"
  by (blast intro: step_rel_trans prim_steps)+

lemma prim_step_right:
  "step_rel st st' \<Longrightarrow> step_rel st (XOR2 a b out st')"
  "step_rel st st' \<Longrightarrow> step_rel st (AND2 a b out st')"
  "step_rel st st' \<Longrightarrow> step_rel st (OR2 a b out st')"
  "step_rel st st' \<Longrightarrow> step_rel st (NOT1 a out st')"
  "step_rel st st' \<Longrightarrow> step_rel st (MUX2 sel a b out st')"
  "step_rel st st' \<Longrightarrow> step_rel st (DFF a b out st')"
  by (blast intro: step_rel_trans prim_steps)+

lemma new_tmp_step_left: "step_rel (snd (new_tmp p st)) st' \<Longrightarrow> step_rel st st'"
  by (metis new_tmp_step step_rel_trans surjective_pairing)

lemma get_bits_step_left: "step_rel (snd (get_bits s st)) st' \<Longrightarrow> step_rel st st'"
  by (metis get_bits_step step_rel_trans surjective_pairing)

lemma new_tmp_step_right: "step_rel st st' \<Longrightarrow> step_rel st (snd (new_tmp p st'))"
  by (metis new_tmp_step step_rel_trans surjective_pairing)

lemma get_bits_step_right: "step_rel st st' \<Longrightarrow> step_rel st (snd (get_bits s st'))"
  by (metis get_bits_step step_rel_trans surjective_pairing)

lemmas step_right = prim_step_right new_tmp_step_right get_bits_step_right

lemmas step_left = prim_step_left new_tmp_step_left get_bits_step_left

lemma bitwise_loop_step:
  "constructor \<in> {XOR2, AND2, OR2} \<Longrightarrow>
   bitwise_loop constructor a_bits b_bits out_bits is st = Inr st' \<Longrightarrow> step_rel st st'"
proof (induction "is" arbitrary: st)
  case Nil
  then show ?case by simp
next
  case (Cons i "is")
  from Cons.prems(2) obtain a b out where
    r: "bitwise_loop constructor a_bits b_bits out_bits is (constructor a b out st) = Inr st'"
    by (auto simp: ebind_eq_Inr)
  have "step_rel (constructor a b out st) st'"
    using Cons.IH [OF Cons.prems(1) r] .
  moreover have "step_rel st (constructor a b out st)"
    using Cons.prems(1) by auto
  ultimately show ?case by (rule step_rel_trans [rotated])
qed

lemma mux_loop_step:
  "mux_loop sel t_bits f_bits out_bits is st = Inr st' \<Longrightarrow> step_rel st st'"
proof (induction "is" arbitrary: st)
  case Nil
  then show ?case by simp
next
  case (Cons i "is")
  from Cons.prems obtain a b out where
    r: "mux_loop sel t_bits f_bits out_bits is (MUX2 sel a b out st) = Inr st'"
    by (auto simp: ebind_eq_Inr)
  from Cons.IH [OF r] show ?case by (rule prim_step_left)
qed

lemma eq_loop_step:
  "eq_loop a_bits b_bits is eq_bits st = Inr (eq_bits', st') \<Longrightarrow> step_rel st st'"
proof (induction "is" arbitrary: eq_bits st)
  case Nil
  then show ?case by simp
next
  case (Cons i "is")
  from Cons.prems show ?case
    by (auto simp: ebind_eq_Inr Let_def case_prod_beta dest!: Cons.IH step_left)
qed

lemma and_red_loop_step:
  "and_red_loop eq_bits is cur st = Inr (cur', st') \<Longrightarrow> step_rel st st'"
proof (induction "is" arbitrary: cur st)
  case Nil
  then show ?case by simp
next
  case (Cons i "is")
  from Cons.prems show ?case
    by (auto simp: ebind_eq_Inr Let_def case_prod_beta dest!: Cons.IH step_left)
qed

lemma add_loop_step:
  "add_loop a_bits b_bits out_bits is carry st = Inr st' \<Longrightarrow> step_rel st st'"
proof (induction "is" arbitrary: carry st)
  case Nil
  then show ?case by simp
next
  case (Cons i "is")
  from Cons.prems show ?case
    by (auto simp: ebind_eq_Inr Let_def case_prod_beta dest!: Cons.IH step_left)
qed

lemma dff_loop_step:
  "dff_loop d_en_bits d_rst_bits q_old_bits q_bits en_b rst_b clk_b is st = Inr st' \<Longrightarrow>
   step_rel st st'"
proof (induction "is" arbitrary: st)
  case Nil
  then show ?case by simp
next
  case (Cons i "is")
  from Cons.prems show ?case
    by (auto simp: ebind_eq_Inr Let_def case_prod_beta dest!: Cons.IH step_left)
qed


lemma get_operand_bits_step': "get_operand_bits c0 c1 sig w st = Inr x \<Longrightarrow> step_rel st (snd x)"
  by (cases x) (auto dest: get_operand_bits_step)

lemma buffer_to_out_step: "buffer_to_out x c1 out st = Inr st' \<Longrightarrow> step_rel st st'"
  by (auto simp: buffer_to_out_def ebind_eq_Inr case_prod_beta intro!: step_right)

lemma lower_bitwise_step: "lower_bitwise c0 c1 g st = Inr st' \<Longrightarrow> step_rel st st'"
  apply (auto simp: lower_bitwise_def ebind_eq_Inr Let_def case_prod_beta split: list.splits
      dest!: get_operand_bits_step' bitwise_loop_step [rotated] step_left)
  apply (blast intro: step_rel_trans)+
  done

lemma lower_eq_step: "lower_eq c0 c1 g st = Inr st' \<Longrightarrow> step_rel st st'"
  apply (auto simp: lower_eq_def ebind_eq_Inr Let_def case_prod_beta split: list.splits if_splits
      dest!: get_operand_bits_step' eq_loop_step and_red_loop_step buffer_to_out_step step_left
     )
  apply (blast intro: step_rel_trans)+
  done

lemma lower_mux_step: "lower_mux c0 c1 g st = Inr st' \<Longrightarrow> step_rel st st'"
  apply (auto simp: lower_mux_def ebind_eq_Inr Let_def case_prod_beta split: list.splits
      dest!: get_operand_bits_step' mux_loop_step step_left)
  apply (blast intro: step_rel_trans)+
  done

lemma lower_add_step: "lower_add c0 c1 g st = Inr st' \<Longrightarrow> step_rel st st'"
  apply (auto simp: lower_add_def ebind_eq_Inr Let_def case_prod_beta split: list.splits
      dest!: get_operand_bits_step' add_loop_step step_left)
  apply (blast intro: step_rel_trans)+
  done

lemma lower_dff_en_rst_step: "lower_dff_en_rst c0 c1 g st = Inr st' \<Longrightarrow> step_rel st st'"
  apply (auto simp: lower_dff_en_rst_def ebind_eq_Inr Let_def case_prod_beta split: list.splits
      dest!: get_operand_bits_step' dff_loop_step step_left)
  apply (blast intro: step_rel_trans)+
  done

lemma lower_passthrough_step: "lower_passthrough c1 g st = Inr st' \<Longrightarrow> step_rel st st'"
  by (auto simp: lower_passthrough_def ebind_eq_Inr Let_def case_prod_beta split: if_splits
      dest!: buffer_to_out_step step_left intro!: step_right)

lemma lower_gate_step: "lower_gate c0 c1 g st = Inr st' \<Longrightarrow> step_rel st st'"
  by (auto simp: lower_gate_def Let_def split: if_splits
      dest: lower_bitwise_step lower_eq_step lower_mux_step lower_add_step
        lower_dff_en_rst_step lower_passthrough_step)

lemma lower_gates_step: "lower_gates c0 c1 gs st = Inr st' \<Longrightarrow> step_rel st st'"
  by (induction gs arbitrary: st)
     (auto simp: ebind_eq_Inr dest!: lower_gate_step intro: step_rel_trans)

lemma precreate_step: "step_rel st (precreate ss st)"
proof (induction ss arbitrary: st)
  case Nil
  show ?case by simp
next
  case (Cons s ss)
  have "step_rel (snd (get_bits s st)) (precreate ss (snd (get_bits s st)))" by (rule Cons.IH)
  then show ?case by (simp add: get_bits_step_left)
qed

section \<open>The pass as a whole\<close>

lemma ensure_const_signals:
  "ensure_const n m = (c, m1) \<Longrightarrow> n \<in> {''CONST0'', ''CONST1''} \<Longrightarrow>
   \<exists>ext. signals m1 = signals m @ ext \<and> (\<forall>p \<in> set ext. added_by_pass p) \<and>
     module_name m1 = module_name m \<and> gates m1 = gates m"
  by (auto simp: ensure_const_def get_signal_def add_signal_def dict_set_fresh Let_def
      added_by_pass_def mk_signal_def split: option.splits)

lemma run_result:
  assumes "run m = Inr m'"
  shows "\<exists>ext. signals m' = signals m @ ext \<and> (\<forall>p \<in> set ext. added_by_pass p) \<and>
     (\<forall>g \<in> set (gates m'). prim_gate g) \<and> module_name m' = module_name m"
proof -
  obtain c0 m1 where e0: "ensure_const ''CONST0'' m = (c0, m1)" by (cases "ensure_const ''CONST0'' m")
  obtain c1 m2 where e1: "ensure_const ''CONST1'' m1 = (c1, m2)" by (cases "ensure_const ''CONST1'' m1")
  let ?st0 = "init_state m2"
  let ?st1 = "precreate (map snd (signals ?st0)) ?st0"
  from assms e0 e1 obtain st where
    lg: "lower_gates c0 c1 (gates ?st1) ?st1 = Inr st" and
    m': "m' = \<lparr>module_name = module_name st, signals = signals st, gates = new_gates st\<rparr>"
    by (auto simp: run_def Let_def ebind_eq_Inr)
  from ensure_const_signals [OF e0] obtain x0 where
    x0: "signals m1 = signals m @ x0" "\<forall>p \<in> set x0. added_by_pass p" "module_name m1 = module_name m"
    by auto
  from ensure_const_signals [OF e1] obtain x1 where
    x1: "signals m2 = signals m1 @ x1" "\<forall>p \<in> set x1. added_by_pass p" "module_name m2 = module_name m1"
    by auto
  have "step_rel ?st0 st"
    using precreate_step lower_gates_step [OF lg] by (rule step_rel_trans)
  then obtain x2 where
    x2: "signals st = signals m2 @ x2" "\<forall>p \<in> set x2. added_by_pass p"
        "\<forall>g \<in> set (new_gates st). prim_gate g" "module_name st = module_name m2"
    by (auto simp: step_rel_def init_state_def)
  have "signals m' = signals m @ (x0 @ x1 @ x2)" "\<forall>p \<in> set (x0 @ x1 @ x2). added_by_pass p"
    using x0 x1 x2 m' by auto
  moreover have "\<forall>g \<in> set (gates m'). prim_gate g" "module_name m' = module_name m"
    using x0 x1 x2 m' by auto
  ultimately show ?thesis by blast
qed

lemma added_by_pass_width: "added_by_pass p \<Longrightarrow> width (snd p) = 1"
  by (auto simp: added_by_pass_def mk_signal_def bit_signal_def)

lemma run_bus_module: "run bus_module = Inr bus_module_out"
  by (simp add: run_def bus_module_def bus_module_out_def ensure_const_def get_signal_def
      add_signal_def mk_signal_def init_state_def Let_def get_bits_def py_range_def
      bit_signal_def bit_name_def digit_char_def upt_rec str_nat.simps)

lemma run_not_module: "run not_module = Inr not_module_out"
  by (simp add: run_def not_module_def not_module_out_def ensure_const_def get_signal_def
      add_signal_def mk_signal_def mk_gate_def init_state_def Let_def get_bits_def
      lower_gate_def lower_passthrough_def py_index_def NOT1_def emit_def)

section \<open>Names are told apart by their index\<close>

lemma digit_value_digit_char: "d < 10 \<Longrightarrow> digit_value (digit_char d) = Some d"
proof -
  assume "d < 10"
  then have "d \<in> {0,1,2,3,4,5,6,7,8,9}" by auto
  then show ?thesis
    by (auto simp: digit_char_def digit_value_def)
qed

lemma is_digit_digit_char: "d < 10 \<Longrightarrow> is_digit (digit_char d)"
proof -
  assume "d < 10"
  then have "d \<in> {0,1,2,3,4,5,6,7,8,9}" by auto
  then show ?thesis
    by (auto simp: digit_char_def is_digit_def)
qed

lemma str_nat_digits: "list_all is_digit (str_nat n)"
  by (induction n rule: str_nat.induct) (subst str_nat.simps, simp add: is_digit_digit_char)

lemma str_nat_nonempty: "str_nat n \<noteq> []"
  by (subst str_nat.simps) simp

lemma dec_val_str_nat: "dec_val 0 (str_nat n) = n"
proof (induction n rule: str_nat.induct)
  case (1 n)
  show ?case
  proof (cases "n < 10")
    case True
    then show ?thesis
      by (subst str_nat.simps) (simp add: dec_val_def digit_value_digit_char)
  next
    case False
    with 1 have "dec_val 0 (str_nat (n div 10)) = n div 10" by simp
    with False show ?thesis
      by (subst str_nat.simps) (simp add: dec_val_def digit_value_digit_char)
  qed
qed

lemma str_nat_inj: "str_nat m = str_nat n \<Longrightarrow> m = n"
  by (metis dec_val_str_nat)

lemma is_digit_not_underscore: "is_digit c \<Longrightarrow> c \<noteq> CHR ''_''"
  by (auto simp: is_digit_def)

lemma str_nat_no_underscore: "CHR ''_'' \<notin> set (str_nat n)"
proof
  assume "CHR ''_'' \<in> set (str_nat n)"
  with str_nat_digits [of n] have "is_digit CHR ''_''" by (simp add: list_all_iff)
  then show False by (simp add: is_digit_def)
qed

lemma bit_name_inj: "bit_name b i = bit_name b' i' \<Longrightarrow> b = b' \<and> i = i'"
proof -
  assume a: "bit_name b i = bit_name b' i'"
  have r: "\<And>b i. rev (bit_name b i) = rev (str_nat i) @ CHR ''_'' # rev b"
    by (simp add: bit_name_def)
  have t: "\<And>b i. takeWhile (\<lambda>c. c \<noteq> CHR ''_'') (rev (bit_name b i)) = rev (str_nat i)"
    unfolding r using str_nat_no_underscore by (subst takeWhile_append2) auto
  have d: "\<And>b i. dropWhile (\<lambda>c. c \<noteq> CHR ''_'') (rev (bit_name b i)) = CHR ''_'' # rev b"
    unfolding r using str_nat_no_underscore by (subst dropWhile_append2) auto
  from a t have "rev (str_nat i) = rev (str_nat i')" by metis
  then have "i = i'" by (simp add: str_nat_inj)
  moreover from a d have "CHR ''_'' # rev b = CHR ''_'' # rev b'" by metis
  ultimately show ?thesis by simp
qed

lemma tmp_name_bit_name: "tmp_name p k = bit_name (''tmp_'' @ p) k"
  by (simp add: tmp_name_def bit_name_def)

lemma tmp_name_inj: "tmp_name p k = tmp_name p' k' \<Longrightarrow> p = p' \<and> k = k'"
  by (auto simp: tmp_name_bit_name dest: bit_name_inj)

section \<open>The ripple-carry network adds\<close>

lemma tmp_name_eq [simp]: "tmp_name p k = tmp_name p' k' \<longleftrightarrow> p = p' \<and> k = k'"
  by (auto dest: tmp_name_inj)

lemma bool_full_adder:
  "(if (a \<noteq> b) \<noteq> c then 1 else 0) + 2 * (if a \<and> b \<or> a \<and> c \<or> b \<and> c then 1 else 0) =
   (if a then 1 else 0) + (if b then 1 else 0) + (if c then 1 else (0::nat))"
  by auto

lemma bits_value_bound: "bits_value bs < 2 ^ length bs"
  by (induction bs) auto


lemma names_ok_simps [simp]:
  "names_ok (st\<lparr>tmp_idx := k\<rparr>) = names_ok st"
  "names_ok (st\<lparr>bits_map := bm\<rparr>) = names_ok st"
  "names_ok (emit g st) = names_ok st"
  by (simp_all add: names_ok_def emit_def)

lemma names_ok_step: "step_rel st st' \<Longrightarrow> names_ok st \<Longrightarrow> names_ok st'"
proof -
  assume a: "step_rel st st'" and b: "names_ok st"
  from a obtain ext where e: "signals st' = signals st @ ext" "\<forall>p \<in> set ext. added_by_pass p"
    unfolding step_rel_def by blast
  from e(2) have "\<forall>p \<in> set ext. name (snd p) = fst p" by (simp add: added_by_pass_def)
  with b e(1) show ?thesis by (simp add: names_ok_def list_all_iff) blast
qed

lemma new_tmp_name: "names_ok st \<Longrightarrow> name (fst (new_tmp p st)) = tmp_name p (tmp_idx st)"
  by (auto simp: new_tmp_def Let_def get_signal_def names_ok_def list_all_iff mk_signal_def
      split: option.splits dest!: map_of_SomeD)

lemma new_tmp_state [simp]:
  "tmp_idx (snd (new_tmp p st)) = Suc (tmp_idx st)"
  "new_gates (snd (new_tmp p st)) = new_gates st"
  by (auto simp: new_tmp_def Let_def add_signal_def split: option.splits)

lemma new_tmp_names_ok [simp]: "names_ok st \<Longrightarrow> names_ok (snd (new_tmp p st))"
  by (metis names_ok_step new_tmp_step surjective_pairing)

lemma prim_state [simp]:
  "tmp_idx (XOR2 a b out st) = tmp_idx st" "new_gates (XOR2 a b out st) = new_gates st @ [mk_gate ''XOR'' [a, b] out]"
  "tmp_idx (AND2 a b out st) = tmp_idx st" "new_gates (AND2 a b out st) = new_gates st @ [mk_gate ''AND'' [a, b] out]"
  "tmp_idx (OR2 a b out st) = tmp_idx st" "new_gates (OR2 a b out st) = new_gates st @ [mk_gate ''OR'' [a, b] out]"
  "tmp_idx (NOT1 a out st) = tmp_idx st" "new_gates (NOT1 a out st) = new_gates st @ [mk_gate ''NOT'' [a] out]"
  "tmp_idx (MUX2 sel a b out st) = tmp_idx st"
  "new_gates (MUX2 sel a b out st) = new_gates st @ [mk_gate ''MUX'' [sel, a, b] out]"
  "tmp_idx (DFF a b out st) = tmp_idx st" "new_gates (DFF a b out st) = new_gates st @ [mk_gate ''DFF'' [a, b] out]"
  by (simp_all add: XOR2_def AND2_def OR2_def NOT1_def MUX2_def DFF_def emit_def)

lemma prim_names_ok [simp]:
  "names_ok (XOR2 a b out st) = names_ok st" "names_ok (AND2 a b out st) = names_ok st"
  "names_ok (OR2 a b out st) = names_ok st" "names_ok (NOT1 a out st) = names_ok st"
  "names_ok (MUX2 sel a b out st) = names_ok st" "names_ok (DFF a b out st) = names_ok st"
  by (simp_all add: XOR2_def AND2_def OR2_def NOT1_def MUX2_def DFF_def)

lemma to_dict_mk_gate [simp]: "to_dict (mk_gate op ins out) = mk_gate op (map name ins) (name out)"
  by (simp add: to_dict_def mk_gate_def)

lemma add_loop_net:
  assumes "names_ok st"
    and "\<forall>i \<in> set is. i < length a_bits \<and> i < length b_bits \<and> i < length out_bits"
  shows "\<exists>st'. add_loop a_bits b_bits out_bits is carry st = Inr st' \<and>
     map to_dict (new_gates st') = map to_dict (new_gates st) @
       ripple_net (map name a_bits) (map name b_bits) (map name out_bits) is (name carry) (tmp_idx st) \<and>
     names_ok st'"
  using assms
proof (induction "is" arbitrary: carry st)
  case Nil
  then show ?case by simp
next
  case (Cons i "is")
  let ?st1 = "snd (new_tmp ''xor'' st)"
  let ?t1 = "fst (new_tmp ''xor'' st)"
  let ?a = "a_bits ! i" and ?b = "b_bits ! i" and ?s = "out_bits ! i"
  let ?st3 = "XOR2 ?t1 carry ?s (XOR2 ?a ?b ?t1 ?st1)"
  let ?t_ab = "fst (new_tmp ''and'' ?st3)" and ?st4 = "snd (new_tmp ''and'' ?st3)"
  let ?t_ac = "fst (new_tmp ''and'' ?st4)" and ?st5 = "snd (new_tmp ''and'' ?st4)"
  let ?t_bc = "fst (new_tmp ''and'' ?st5)" and ?st6 = "snd (new_tmp ''and'' ?st5)"
  let ?st9 = "AND2 ?b carry ?t_bc (AND2 ?a carry ?t_ac (AND2 ?a ?b ?t_ab ?st6))"
  let ?t_or1 = "fst (new_tmp ''or'' ?st9)" and ?st10 = "snd (new_tmp ''or'' ?st9)"
  let ?st11 = "OR2 ?t_ab ?t_ac ?t_or1 ?st10"
  let ?cnext = "fst (new_tmp ''or'' ?st11)" and ?st12 = "snd (new_tmp ''or'' ?st11)"
  let ?st13 = "OR2 ?t_or1 ?t_bc ?cnext ?st12"
  have i: "i < length a_bits" "i < length b_bits" "i < length out_bits"
    using Cons.prems(2) by auto
  have unf: "add_loop a_bits b_bits out_bits (i # is) carry st =
             add_loop a_bits b_bits out_bits is ?cnext ?st13"
    using i by (simp add: py_index_def Let_def case_prod_beta)
  have ok: "names_ok ?st1" "names_ok ?st3" "names_ok ?st4" "names_ok ?st5" "names_ok ?st6"
    "names_ok ?st9" "names_ok ?st10" "names_ok ?st11" "names_ok ?st12" "names_ok ?st13"
    using Cons.prems(1) by simp_all
  have nm: "name ?t1 = tmp_name ''xor'' (tmp_idx st)"
    "name ?t_ab = tmp_name ''and'' (tmp_idx st + 1)"
    "name ?t_ac = tmp_name ''and'' (tmp_idx st + 2)"
    "name ?t_bc = tmp_name ''and'' (tmp_idx st + 3)"
    "name ?t_or1 = tmp_name ''or'' (tmp_idx st + 4)"
    "name ?cnext = tmp_name ''or'' (tmp_idx st + 5)"
    using Cons.prems(1) ok by (simp_all add: new_tmp_name)
  have idx: "tmp_idx ?st13 = tmp_idx st + 6" by simp
  have g: "map to_dict (new_gates ?st13) = map to_dict (new_gates st) @
      full_adder (name ?a) (name ?b) (name carry) (name ?s) (tmp_idx st)"
    by (simp add: full_adder_def nm eval_nat_numeral)
  from Cons.IH [OF ok(10), of ?cnext] Cons.prems(2) obtain st' where
    r: "add_loop a_bits b_bits out_bits is ?cnext ?st13 = Inr st'"
       "map to_dict (new_gates st') = map to_dict (new_gates ?st13) @
          ripple_net (map name a_bits) (map name b_bits) (map name out_bits) is (name ?cnext) (tmp_idx ?st13)"
       "names_ok st'"
    by auto
  show ?case
    using r i unfolding unf by (simp add: nm full_adder_def eval_nat_numeral)
qed

lemma get_bits_loop_frame:
  "new_gates (snd (get_bits_loop sig is bl st)) = new_gates st \<and>
   tmp_idx (snd (get_bits_loop sig is bl st)) = tmp_idx st"
  by (induction "is" arbitrary: bl st) (auto simp: Let_def add_signal_def split: option.splits)

lemma get_bits_frame [simp]:
  "new_gates (snd (get_bits sig st)) = new_gates st"
  "tmp_idx (snd (get_bits sig st)) = tmp_idx st"
  by (auto simp: get_bits_def case_prod_beta get_bits_loop_frame split: option.splits)

lemma get_operand_bits_frame:
  "get_operand_bits c0 c1 sig w st = Inr (bl, st') \<Longrightarrow>
   new_gates st' = new_gates st \<and> tmp_idx st' = tmp_idx st"
  by (auto simp: get_operand_bits_def const_bits_from_signal_def ebind_eq_Inr Let_def
      split: if_splits) (metis get_bits_frame snd_conv)+

lemma get_operand_bits_length:
  "get_operand_bits c0 c1 sig w st = Inr (bl, st') \<Longrightarrow> 0 \<le> w \<Longrightarrow> length bl = nat w"
proof -
  assume a: "get_operand_bits c0 c1 sig w st = Inr (bl, st')" and w: "0 \<le> w"
  from a obtain bits where
    "bl = py_slice_to (if int (length bits) < w
                       then bits @ replicate (nat (w - int (length bits))) c0 else bits) w"
    by (auto simp: get_operand_bits_def ebind_eq_Inr Let_def)
  with w show ?thesis
    by (cases "int (length bits) < w") (auto simp: py_slice_to_def)
qed

lemma get_operand_bits_names_ok:
  "get_operand_bits c0 c1 sig w st = Inr (bl, st') \<Longrightarrow> names_ok st \<Longrightarrow> names_ok st'"
  by (blast intro: names_ok_step get_operand_bits_step)

lemma get_bits_names_ok: "get_bits sig st = (bl, st') \<Longrightarrow> names_ok st \<Longrightarrow> names_ok st'"
  by (blast intro: names_ok_step get_bits_step)

lemma bits_value_mod:
  "length xs = n \<Longrightarrow> bits_value xs + 2 ^ n * c = s \<Longrightarrow> bits_value xs = s mod 2 ^ n"
  using bits_value_bound [of xs] by auto

lemmas eval_defs = get_operand_bits_def startswith_def get_bits_def py_range_def upt_rec
  get_signal_def add_signal_def bit_name_def str_nat.simps digit_char_def bit_signal_def
  mk_signal_def mk_gate_def py_slice_to_def init_state_def Let_def

section \<open>The equality network compares\<close>

lemma xnor_names_length [simp]: "length (xnor_names is k) = length is"
  by (induction "is" arbitrary: k) auto

lemma eq_loop_net:
  assumes "names_ok st" and "\<forall>i \<in> set is. i < length a_bits \<and> i < length b_bits"
  shows "\<exists>new st'. eq_loop a_bits b_bits is eq_bits st = Inr (eq_bits @ new, st') \<and>
     map name new = xnor_names is (tmp_idx st) \<and>
     map to_dict (new_gates st') = map to_dict (new_gates st) @
       xnor_net (map name a_bits) (map name b_bits) is (tmp_idx st) \<and>
     names_ok st' \<and> tmp_idx st' = tmp_idx st + 2 * length is"
  using assms
proof (induction "is" arbitrary: eq_bits st)
  case Nil
  then show ?case by simp
next
  case (Cons i "is")
  let ?t_xor = "fst (new_tmp ''xor_eq'' st)" and ?st1 = "snd (new_tmp ''xor_eq'' st)"
  let ?t_xnor = "fst (new_tmp ''xnor_eq'' ?st1)" and ?st2 = "snd (new_tmp ''xnor_eq'' ?st1)"
  let ?st4 = "NOT1 ?t_xor ?t_xnor (XOR2 (a_bits ! i) (b_bits ! i) ?t_xor ?st2)"
  have i: "i < length a_bits" "i < length b_bits" using Cons.prems(2) by auto
  have unf: "eq_loop a_bits b_bits (i # is) eq_bits st =
             eq_loop a_bits b_bits is (eq_bits @ [?t_xnor]) ?st4"
    using i by (simp add: py_index_def Let_def case_prod_beta)
  have ok: "names_ok ?st1" "names_ok ?st2" "names_ok ?st4" using Cons.prems(1) by simp_all
  have nm: "name ?t_xor = tmp_name ''xor_eq'' (tmp_idx st)"
    "name ?t_xnor = tmp_name ''xnor_eq'' (tmp_idx st + 1)"
    using Cons.prems(1) ok by (simp_all add: new_tmp_name)
  from Cons.IH [OF ok(3), of "eq_bits @ [?t_xnor]"] Cons.prems(2) obtain new st' where
    r: "eq_loop a_bits b_bits is (eq_bits @ [?t_xnor]) ?st4 = Inr ((eq_bits @ [?t_xnor]) @ new, st')"
       "map name new = xnor_names is (tmp_idx ?st4)"
       "map to_dict (new_gates st') = map to_dict (new_gates ?st4) @
          xnor_net (map name a_bits) (map name b_bits) is (tmp_idx ?st4)"
       "names_ok st'" "tmp_idx st' = tmp_idx ?st4 + 2 * length is"
    by auto
  show ?case
    apply (rule exI [of _ "?t_xnor # new"])
    apply (rule exI [of _ st'])
    using r i unfolding unf by (simp add: nm eval_nat_numeral)
qed

lemma and_red_loop_net:
  assumes "names_ok st" and "\<forall>i \<in> set is. i < length eq_bits"
  shows "\<exists>cur' st'. and_red_loop eq_bits is cur st = Inr (cur', st') \<and>
     name cur' = and_chain_out is (name cur) (tmp_idx st) \<and>
     map to_dict (new_gates st') = map to_dict (new_gates st) @
       and_chain (map name eq_bits) is (name cur) (tmp_idx st) \<and>
     names_ok st'"
  using assms
proof (induction "is" arbitrary: cur st)
  case Nil
  then show ?case by simp
next
  case (Cons i "is")
  let ?t = "fst (new_tmp ''and_red'' st)" and ?st1 = "snd (new_tmp ''and_red'' st)"
  let ?st2 = "AND2 cur (eq_bits ! i) ?t ?st1"
  have i: "i < length eq_bits" using Cons.prems(2) by auto
  have unf: "and_red_loop eq_bits (i # is) cur st = and_red_loop eq_bits is ?t ?st2"
    using i by (simp add: py_index_def Let_def case_prod_beta)
  have ok: "names_ok ?st1" "names_ok ?st2" using Cons.prems(1) by simp_all
  have nm: "name ?t = tmp_name ''and_red'' (tmp_idx st)"
    using Cons.prems(1) by (simp add: new_tmp_name)
  from Cons.IH [OF ok(2), of ?t] Cons.prems(2) obtain cur' st' where
    r: "and_red_loop eq_bits is ?t ?st2 = Inr (cur', st')"
       "name cur' = and_chain_out is (name ?t) (tmp_idx ?st2)"
       "map to_dict (new_gates st') = map to_dict (new_gates ?st2) @
          and_chain (map name eq_bits) is (name ?t) (tmp_idx ?st2)"
       "names_ok st'"
    by auto
  show ?case
    using r i unfolding unf by (simp add: nm)
qed

lemma buffer_to_out_width1:
  "width out = 1 \<Longrightarrow>
   buffer_to_out x c1 out st = Inr (AND2 x c1 out (st\<lparr>bits_map := (bits_map st)(name out \<mapsto> [out])\<rparr>))"
  by (simp add: buffer_to_out_def get_bits_def py_index_def)


lemma list_all_nth_eq_take:
  assumes "n \<le> length xs" "n \<le> length ys"
  shows "list_all (\<lambda>i. f (xs ! i) = f (ys ! i)) [0..<n] = (map f (take n xs) = map f (take n ys))"
  using assms by (auto simp: list_all_iff list_eq_iff_nth_eq)

lemma eq_net_last:
  "\<exists>x. last (eq_net as bs n c1 out k) = mk_gate ''AND'' [x, c1] out"
  by (auto simp: eq_net_def Let_def)

section \<open>The register network gives reset the priority\<close>

lemma dff_loop_net:
  assumes "names_ok st"
    and "\<forall>i \<in> set is. i < length d_en_bits \<and> i < length d_rst_bits \<and>
                        i < length q_old_bits \<and> i < length q_bits"
  shows "\<exists>st'. dff_loop d_en_bits d_rst_bits q_old_bits q_bits en_b rst_b clk_b is st = Inr st' \<and>
     map to_dict (new_gates st') = map to_dict (new_gates st) @
       dff_net (map name d_en_bits) (map name d_rst_bits) (map name q_old_bits) (map name q_bits)
         (name en_b) (name rst_b) (name clk_b) is (tmp_idx st) \<and>
     names_ok st'"
  using assms
proof (induction "is" arbitrary: st)
  case Nil
  then show ?case by simp
next
  case (Cons i "is")
  let ?mux_en = "fst (new_tmp ''mux'' st)" and ?st1 = "snd (new_tmp ''mux'' st)"
  let ?st2 = "MUX2 en_b (d_en_bits ! i) (q_old_bits ! i) ?mux_en ?st1"
  let ?mux_rst = "fst (new_tmp ''mux'' ?st2)" and ?st3 = "snd (new_tmp ''mux'' ?st2)"
  let ?st5 = "DFF ?mux_rst clk_b (q_bits ! i) (MUX2 rst_b (d_rst_bits ! i) ?mux_en ?mux_rst ?st3)"
  have i: "i < length d_en_bits" "i < length d_rst_bits" "i < length q_old_bits" "i < length q_bits"
    using Cons.prems(2) by auto
  have unf: "dff_loop d_en_bits d_rst_bits q_old_bits q_bits en_b rst_b clk_b (i # is) st =
             dff_loop d_en_bits d_rst_bits q_old_bits q_bits en_b rst_b clk_b is ?st5"
    using i by (simp add: py_index_def Let_def case_prod_beta)
  have ok: "names_ok ?st1" "names_ok ?st2" "names_ok ?st3" "names_ok ?st5"
    using Cons.prems(1) by simp_all
  have nm: "name ?mux_en = tmp_name ''mux'' (tmp_idx st)"
    "name ?mux_rst = tmp_name ''mux'' (tmp_idx st + 1)"
    using Cons.prems(1) ok by (simp_all add: new_tmp_name)
  from Cons.IH [OF ok(4)] Cons.prems(2) obtain st' where
    r: "dff_loop d_en_bits d_rst_bits q_old_bits q_bits en_b rst_b clk_b is ?st5 = Inr st'"
       "map to_dict (new_gates st') = map to_dict (new_gates ?st5) @
          dff_net (map name d_en_bits) (map name d_rst_bits) (map name q_old_bits) (map name q_bits)
            (name en_b) (name rst_b) (name clk_b) is (tmp_idx ?st5)"
       "names_ok st'"
    by auto
  show ?case
    using r i unfolding unf by (simp add: nm eval_nat_numeral)
qed

lemma get_bits_width1:
  "width s = 1 \<Longrightarrow> get_bits s st = ([s], st\<lparr>bits_map := (bits_map st)(name s \<mapsto> [s])\<rparr>)"
  by (simp add: get_bits_def)

section \<open>The state stays well-formed; the bits of an operand\<close>

lemma map_of_append_Some: "map_of S k = Some s \<Longrightarrow> map_of (S @ ext) k = Some s"
  by (simp add: map_add_def)

lemma wf_frame:
  assumes "wf_state S st" and "step_rel st st'" and "bits_map st' = bits_map st"
  shows "wf_state S st'"
proof -
  from assms(2) obtain e where e: "signals st' = signals st @ e" unfolding step_rel_def by blast
  from assms(1) obtain e0 where e0: "signals st = S @ e0" unfolding wf_state_def by blast
  have "signals st' = S @ (e0 @ e)" using e e0 by simp
  then have "\<exists>ext. signals st' = S @ ext" by blast
  moreover have "names_ok st'" using assms(1,2) by (auto simp: wf_state_def intro: names_ok_step)
  ultimately show ?thesis using assms(1,3) by (simp add: wf_state_def)
qed

lemma names_ok_add_signal: "names_ok st \<Longrightarrow> names_ok (add_signal b st)"
proof -
  have "\<And>sigs. list_all (\<lambda>p. name (snd p) = fst p) sigs \<Longrightarrow>
          list_all (\<lambda>p. name (snd p) = fst p) (dict_set (name b) b sigs)"
    subgoal for sigs by (induction sigs) auto
    done
  then show "names_ok st \<Longrightarrow> names_ok (add_signal b st)"
    by (simp add: names_ok_def add_signal_def)
qed

lemma get_signal_name: "names_ok st \<Longrightarrow> get_signal st n = Some b \<Longrightarrow> name b = n"
  by (auto simp: names_ok_def get_signal_def list_all_iff dest!: map_of_SomeD)

lemma get_bits_loop_names:
  "names_ok st \<Longrightarrow>
   map name (fst (get_bits_loop sig is bl st)) = map name bl @ map (bit_name (name sig)) is"
proof (induction "is" arbitrary: bl st)
  case Nil
  show ?case by simp
next
  case (Cons i "is")
  show ?case
  proof (cases "get_signal st (bit_name (name sig) i)")
    case None
    have "names_ok (add_signal (bit_signal sig i) st)"
      using Cons.prems by (rule names_ok_add_signal)
    from Cons.IH [OF this, of "bl @ [bit_signal sig i]"] None show ?thesis
      by (simp add: Let_def bit_signal_def)
  next
    case (Some b)
    then have "name b = bit_name (name sig) i" using Cons.prems by (simp add: get_signal_name)
    with Cons.IH [OF Cons.prems, of "bl @ [b]"] Some show ?thesis by simp
  qed
qed

lemma get_bits_loop_bits_map: "bits_map (snd (get_bits_loop sig is bl st)) = bits_map st"
  by (induction "is" arbitrary: bl st) (auto simp: Let_def add_signal_def split: option.splits)

lemma get_bits_wf:
  assumes wf: "wf_state S st" and ms: "map_of S (name s) = Some s"
    and gb: "get_bits s st = (bl, st')"
  shows "wf_state S st' \<and> map name bl = bit_names s"
proof (cases "width s = 1")
  case True
  with gb have r: "bl = [s]" "st' = st\<lparr>bits_map := (bits_map st)(name s \<mapsto> [s])\<rparr>"
    by (auto simp: get_bits_def)
  have "map name bl = bit_names s" using True r by (simp add: bit_names_def)
  moreover have "wf_state S st'"
    using wf ms True unfolding r wf_state_def by (auto simp: bit_names_def)
  ultimately show ?thesis by simp
next
  case w: False
  show ?thesis
  proof (cases "bits_map st (name s)")
    case (Some c)
    with gb w have r: "bl = c" "st' = st" by (auto simp: get_bits_def)
    from wf Some obtain s' where "map_of S (name s) = Some s'" "map name c = bit_names s'"
      unfolding wf_state_def by blast
    with ms have "map name c = bit_names s" by simp
    with wf r show ?thesis by simp
  next
    case None
    let ?r = "get_bits_loop s (py_range (width s)) [] st"
    from gb w None have r: "bl = fst ?r" "st' = (snd ?r)\<lparr>bits_map := (bits_map (snd ?r))(name s \<mapsto> fst ?r)\<rparr>"
      by (auto simp: get_bits_def case_prod_beta)
    have ok: "names_ok st" using wf by (simp add: wf_state_def)
    have nm: "map name bl = bit_names s"
      using get_bits_loop_names [OF ok, of s "py_range (width s)" "[]"] w r(1)
      by (simp add: bit_names_def)
    have sr: "step_rel st (snd ?r)"
      by (rule get_bits_loop_step [of s "py_range (width s)" "[]" st "fst ?r"]) simp
    have "wf_state S (snd ?r)"
      using wf sr get_bits_loop_bits_map by (rule wf_frame)
    then have "wf_state S st'"
      using ms nm unfolding r wf_state_def by auto
    with nm show ?thesis by simp
  qed
qed


lemma py_slice_to_map: "map f (py_slice_to xs w) = py_slice_to (map f xs) w"
  by (simp add: py_slice_to_def take_map)

lemma fit_map:
  "\<not> f c \<Longrightarrow>
   map f (py_slice_to (if int (length xs) < w
                       then xs @ replicate (nat (w - int (length xs))) c else xs) w) =
   fit (map f xs) w"
  by (simp add: py_slice_to_map fit_def)

lemma get_operand_bits_wf:
  assumes wf: "wf_state S st" and ms: "map_of S (name s) = Some s"
    and go: "get_operand_bits c0 c1 s w st = Inr (bl, st')"
  shows "wf_state S st'"
    and "env (name c1) \<Longrightarrow> \<not> env (name c0) \<Longrightarrow>
         operand_val env s w = Inr (map (\<lambda>x. env (name x)) bl)"
proof -
  show "wf_state S st'"
  proof (cases "startswith (name s) ''CONST_''")
    case True
    with go have "st' = st"
      by (auto simp: get_operand_bits_def const_bits_from_signal_def ebind_eq_Inr Let_def)
    with wf show ?thesis by simp
  next
    case False
    with go obtain bits where "get_bits s st = (bits, st')"
      by (auto simp: get_operand_bits_def ebind_eq_Inr Let_def split: prod.splits)
    from get_bits_wf [OF wf ms this] show ?thesis by simp
  qed
next
  assume e1: "env (name c1)" and e0: "\<not> env (name c0)"
  show "operand_val env s w = Inr (map (\<lambda>x. env (name x)) bl)"
  proof (cases "startswith (name s) ''CONST_''")
    case True
    with go obtain bits where
      lb: "literal_bits s w = Inr bits"
      and bl: "bl = py_slice_to (if int (length (map (\<lambda>b. if b = 1 then c1 else c0) bits)) < w
                 then map (\<lambda>b. if b = 1 then c1 else c0) bits @
                      replicate (nat (w - int (length (map (\<lambda>b. if b = 1 then c1 else c0) bits)))) c0
                 else map (\<lambda>b. if b = 1 then c1 else c0) bits) w"
      by (auto simp: get_operand_bits_def const_bits_from_signal_def literal_bits_def
          ebind_eq_Inr Let_def)
    have m: "map (\<lambda>x. env (name x)) (map (\<lambda>b. if b = 1 then c1 else c0) bits) = map (\<lambda>b. b = 1) bits"
      using e1 e0 by simp
    have "map (\<lambda>x. env (name x)) bl =
          fit (map (\<lambda>x. env (name x)) (map (\<lambda>b. if b = 1 then c1 else c0) bits)) w"
      unfolding bl by (rule fit_map [where f = "\<lambda>x. env (name x)"]) (rule e0)
    then have "map (\<lambda>x. env (name x)) bl = fit (map (\<lambda>b. b = 1) bits) w"
      by (simp only: m)
    then show ?thesis using True lb by (simp add: operand_val_def)
  next
    case False
    with go obtain bits where gb: "get_bits s st = (bits, st')"
      and bl: "bl = py_slice_to (if int (length bits) < w
                 then bits @ replicate (nat (w - int (length bits))) c0 else bits) w"
      by (auto simp: get_operand_bits_def ebind_eq_Inr Let_def split: prod.splits)
    from get_bits_wf [OF wf ms gb] have nm: "map name bits = bit_names s" by simp
    have "map (\<lambda>x. env (name x)) bl = fit (map (\<lambda>x. env (name x)) bits) w"
      unfolding bl by (rule fit_map [where f = "\<lambda>x. env (name x)"]) (rule e0)
    moreover have "map (\<lambda>x. env (name x)) bits = map env (bit_names s)"
      unfolding nm [symmetric] by simp
    ultimately show ?thesis using False by (simp add: operand_val_def)
  qed
qed

lemma new_tmp_bits_map [simp]: "bits_map (snd (new_tmp p st)) = bits_map st"
  by (auto simp: new_tmp_def Let_def add_signal_def split: option.splits)

lemma prim_bits_map [simp]:
  "bits_map (XOR2 a b out st) = bits_map st" "bits_map (AND2 a b out st) = bits_map st"
  "bits_map (OR2 a b out st) = bits_map st" "bits_map (NOT1 a out st) = bits_map st"
  "bits_map (MUX2 sel a b out st) = bits_map st" "bits_map (DFF a b out st) = bits_map st"
  by (simp_all add: XOR2_def AND2_def OR2_def NOT1_def MUX2_def DFF_def emit_def)

lemma bitwise_loop_bits_map:
  "constructor \<in> {XOR2, AND2, OR2} \<Longrightarrow>
   bitwise_loop constructor a_bits b_bits out_bits is st = Inr st' \<Longrightarrow> bits_map st' = bits_map st"
  by (induction "is" arbitrary: st) (auto simp: ebind_eq_Inr)

lemma mux_loop_bits_map:
  "mux_loop sel t_bits f_bits out_bits is st = Inr st' \<Longrightarrow> bits_map st' = bits_map st"
  by (induction "is" arbitrary: st) (auto simp: ebind_eq_Inr)

lemma eq_loop_bits_map:
  "eq_loop a_bits b_bits is eq_bits st = Inr (eq_bits', st') \<Longrightarrow> bits_map st' = bits_map st"
  by (induction "is" arbitrary: eq_bits st) (auto simp: ebind_eq_Inr Let_def case_prod_beta)

lemma and_red_loop_bits_map:
  "and_red_loop eq_bits is cur st = Inr (cur', st') \<Longrightarrow> bits_map st' = bits_map st"
  by (induction "is" arbitrary: cur st) (auto simp: ebind_eq_Inr Let_def case_prod_beta)

lemma add_loop_bits_map:
  "add_loop a_bits b_bits out_bits is carry st = Inr st' \<Longrightarrow> bits_map st' = bits_map st"
  by (induction "is" arbitrary: carry st) (auto simp: ebind_eq_Inr Let_def case_prod_beta)

lemma dff_loop_bits_map:
  "dff_loop d_en_bits d_rst_bits q_old_bits q_bits en_b rst_b clk_b is st = Inr st' \<Longrightarrow>
   bits_map st' = bits_map st"
  by (induction "is" arbitrary: st) (auto simp: ebind_eq_Inr Let_def case_prod_beta)

lemma wf_state_emit [simp]:
  "wf_state S (XOR2 a b out st) = wf_state S st" "wf_state S (AND2 a b out st) = wf_state S st"
  "wf_state S (OR2 a b out st) = wf_state S st" "wf_state S (NOT1 a out st) = wf_state S st"
  "wf_state S (MUX2 sel a b out st) = wf_state S st" "wf_state S (DFF a b out st) = wf_state S st"
  by (simp_all add: wf_state_def XOR2_def AND2_def OR2_def NOT1_def MUX2_def DFF_def emit_def
      names_ok_def)

lemma get_bits_wf_snd:
  "wf_state S st \<Longrightarrow> map_of S (name s) = Some s \<Longrightarrow> wf_state S (snd (get_bits s st))"
  using get_bits_wf [of S st s "fst (get_bits s st)" "snd (get_bits s st)"] by simp

lemma get_operand_bits_wf_snd:
  "get_operand_bits c0 c1 s w st = Inr x \<Longrightarrow> wf_state S st \<Longrightarrow> map_of S (name s) = Some s \<Longrightarrow>
   wf_state S (snd x)"
  using get_operand_bits_wf(1) [of S st s c0 c1 w "fst x" "snd x"] by simp

lemma bitwise_loop_wf:
  assumes "bitwise_loop constructor a_bits b_bits out_bits is st = Inr st'"
    and "constructor \<in> {XOR2, AND2, OR2}" and "wf_state S st"
  shows "wf_state S st'"
  using assms(3) bitwise_loop_step [OF assms(2,1)] bitwise_loop_bits_map [OF assms(2,1)]
  by (rule wf_frame)

lemma mux_loop_wf:
  assumes "mux_loop sel t_bits f_bits out_bits is st = Inr st'" and "wf_state S st"
  shows "wf_state S st'"
  using assms(2) mux_loop_step [OF assms(1)] mux_loop_bits_map [OF assms(1)] by (rule wf_frame)

lemma eq_loop_wf:
  assumes "eq_loop a_bits b_bits is eq_bits st = Inr (eq_bits', st')" and "wf_state S st"
  shows "wf_state S st'"
  using assms(2) eq_loop_step [OF assms(1)] eq_loop_bits_map [OF assms(1)] by (rule wf_frame)

lemma and_red_loop_wf:
  assumes "and_red_loop eq_bits is cur st = Inr (cur', st')" and "wf_state S st"
  shows "wf_state S st'"
  using assms(2) and_red_loop_step [OF assms(1)] and_red_loop_bits_map [OF assms(1)]
  by (rule wf_frame)

lemma add_loop_wf:
  assumes "add_loop a_bits b_bits out_bits is carry st = Inr st'" and "wf_state S st"
  shows "wf_state S st'"
  using assms(2) add_loop_step [OF assms(1)] add_loop_bits_map [OF assms(1)] by (rule wf_frame)

lemma dff_loop_wf:
  assumes "dff_loop d_en_bits d_rst_bits q_old_bits q_bits en_b rst_b clk_b is st = Inr st'"
    and "wf_state S st"
  shows "wf_state S st'"
  using assms(2) dff_loop_step [OF assms(1)] dff_loop_bits_map [OF assms(1)] by (rule wf_frame)

lemma buffer_to_out_wf:
  assumes "buffer_to_out x c1 out st = Inr st'" and "wf_state S st"
    and "map_of S (name out) = Some out"
  shows "wf_state S st'"
proof -
  from assms(1) obtain ob where "st' = AND2 x c1 ob (snd (get_bits out st))"
    by (auto simp: buffer_to_out_def ebind_eq_Inr case_prod_beta)
  then show ?thesis using get_bits_wf_snd [OF assms(2,3)] by simp
qed

lemma gate_ok_output: "gate_ok S g \<Longrightarrow> map_of S (name (output g)) = Some (output g)"
  by (simp add: gate_ok_def)

lemma gate_ok_input: "gate_ok S g \<Longrightarrow> s \<in> set (inputs g) \<Longrightarrow> map_of S (name s) = Some s"
  by (simp add: gate_ok_def list_all_iff)

lemma lower_add_wf:
  assumes l: "lower_add c0 c1 g st = Inr st'" and wf: "wf_state S st" and ok: "gate_ok S g"
  shows "wf_state S st'"
proof -
  from l obtain a b x1 x2 where
    i: "inputs g = [a, b]"
    and 1: "get_operand_bits c0 c1 a (width (output g)) st = Inr x1"
    and 2: "get_operand_bits c0 c1 b (width (output g)) (snd x1) = Inr x2"
    and 3: "add_loop (fst x1) (fst x2) (fst (get_bits (output g) (snd x2)))
              (py_range (width (output g))) c0 (snd (get_bits (output g) (snd x2))) = Inr st'"
    by (auto simp: lower_add_def ebind_eq_Inr Let_def case_prod_beta split: list.splits)
  have ma: "map_of S (name a) = Some a" "map_of S (name b) = Some b"
    using ok i by (simp_all add: gate_ok_input)
  note w1 = get_operand_bits_wf_snd [OF 1 wf ma(1)]
  note w2 = get_operand_bits_wf_snd [OF 2 w1 ma(2)]
  note w3 = get_bits_wf_snd [OF w2 gate_ok_output [OF ok]]
  show ?thesis using 3 w3 by (rule add_loop_wf)
qed

lemma lower_bitwise_wf:
  assumes l: "lower_bitwise c0 c1 g st = Inr st'" and wf: "wf_state S st" and ok: "gate_ok S g"
  shows "wf_state S st'"
proof -
  let ?c = "if op_type g = ''XOR'' then XOR2 else if op_type g = ''AND'' then AND2 else OR2"
  from l obtain a b x1 x2 where
    i: "inputs g = [a, b]"
    and 1: "get_operand_bits c0 c1 a (width (output g)) st = Inr x1"
    and 2: "get_operand_bits c0 c1 b (width (output g)) (snd x1) = Inr x2"
    and 3: "bitwise_loop ?c (fst x1) (fst x2) (fst (get_bits (output g) (snd x2)))
              (py_range (width (output g))) (snd (get_bits (output g) (snd x2))) = Inr st'"
    by (auto simp: lower_bitwise_def ebind_eq_Inr Let_def case_prod_beta split: list.splits)
  have ma: "map_of S (name a) = Some a" "map_of S (name b) = Some b"
    using ok i by (simp_all add: gate_ok_input)
  note w1 = get_operand_bits_wf_snd [OF 1 wf ma(1)]
  note w2 = get_operand_bits_wf_snd [OF 2 w1 ma(2)]
  note w3 = get_bits_wf_snd [OF w2 gate_ok_output [OF ok]]
  have c: "?c \<in> {XOR2, AND2, OR2}" by simp
  show ?thesis using 3 c w3 by (rule bitwise_loop_wf)
qed

lemma lower_mux_wf:
  assumes l: "lower_mux c0 c1 g st = Inr st'" and wf: "wf_state S st" and ok: "gate_ok S g"
  shows "wf_state S st'"
proof -
  from l obtain sel t f sb x1 x2 where
    i: "inputs g = [sel, t, f]"
    and 1: "get_operand_bits c0 c1 t (width (output g)) (snd (get_bits sel st)) = Inr x1"
    and 2: "get_operand_bits c0 c1 f (width (output g)) (snd x1) = Inr x2"
    and 3: "mux_loop sb (fst x1) (fst x2) (fst (get_bits (output g) (snd x2)))
              (py_range (width (output g))) (snd (get_bits (output g) (snd x2))) = Inr st'"
    by (auto simp: lower_mux_def ebind_eq_Inr Let_def case_prod_beta split: list.splits)
  have ma: "map_of S (name sel) = Some sel" "map_of S (name t) = Some t" "map_of S (name f) = Some f"
    using ok i by (simp_all add: gate_ok_input)
  note w0 = get_bits_wf_snd [OF wf ma(1)]
  note w1 = get_operand_bits_wf_snd [OF 1 w0 ma(2)]
  note w2 = get_operand_bits_wf_snd [OF 2 w1 ma(3)]
  note w3 = get_bits_wf_snd [OF w2 gate_ok_output [OF ok]]
  show ?thesis using 3 w3 by (rule mux_loop_wf)
qed

lemma lower_eq_wf:
  assumes l: "lower_eq c0 c1 g st = Inr st'" and wf: "wf_state S st" and ok: "gate_ok S g"
  shows "wf_state S st'"
proof -
  from l obtain a b where i: "inputs g = [a, b]"
    by (auto simp: lower_eq_def split: list.splits)
  let ?w = "max (width a) (width b)"
  let ?rest = "\<lambda>x3. if fst x3 = [] then buffer_to_out c1 c1 (output g) (snd x3)
           else if length (fst x3) = 1 then
             ebind (py_index (fst x3) 0) (\<lambda>e. buffer_to_out e c1 (output g) (snd x3))
           else
             ebind (py_index (fst x3) 0) (\<lambda>e.
             ebind (and_red_loop (fst x3) (py_range1 (length (fst x3))) e (snd x3)) (\<lambda>x4.
             buffer_to_out (fst x4) c1 (output g) (snd x4)))"
  have "ebind (get_operand_bits c0 c1 a ?w st) (\<lambda>x1.
        ebind (get_operand_bits c0 c1 b ?w (snd x1)) (\<lambda>x2.
        ebind (eq_loop (fst x1) (fst x2) (py_range ?w) [] (snd x2)) ?rest)) = Inr st'"
    using l i by (simp add: lower_eq_def Let_def split_def cong: if_cong)
  then obtain x1 x2 x3 where
    1: "get_operand_bits c0 c1 a ?w st = Inr x1"
    and 2: "get_operand_bits c0 c1 b ?w (snd x1) = Inr x2"
    and 3: "eq_loop (fst x1) (fst x2) (py_range ?w) [] (snd x2) = Inr x3"
    and 4: "?rest x3 = Inr st'"
    by (elim ebindE) (rule that)
  have ma: "map_of S (name a) = Some a" "map_of S (name b) = Some b"
    using ok i by (simp_all add: gate_ok_input)
  note w1 = get_operand_bits_wf_snd [OF 1 wf ma(1)]
  note w2 = get_operand_bits_wf_snd [OF 2 w1 ma(2)]
  have w3: "wf_state S (snd x3)"
    using 3 w2 eq_loop_wf [of "fst x1" "fst x2" _ "[]" "snd x2" "fst x3" "snd x3" S] by simp
  note mo = gate_ok_output [OF ok]
  show ?thesis
  proof (cases "fst x3 = [] \<or> length (fst x3) = 1")
    case True
    then show ?thesis using 4 w3 mo
      by (auto simp: ebind_eq_Inr split: if_splits intro: buffer_to_out_wf)
  next
    case False
    with 4 obtain e x4 where
      5: "and_red_loop (fst x3) (py_range1 (length (fst x3))) e (snd x3) = Inr x4"
      and 6: "buffer_to_out (fst x4) c1 (output g) (snd x4) = Inr st'"
      by (auto simp: ebind_eq_Inr split: if_splits)
    have w4: "wf_state S (snd x4)"
      using 5 w3 and_red_loop_wf [of "fst x3" _ e "snd x3" "fst x4" "snd x4" S] by simp
    show ?thesis using 6 w4 mo by (rule buffer_to_out_wf)
  qed
qed

lemma lower_dff_en_rst_wf:
  assumes l: "lower_dff_en_rst c0 c1 g st = Inr st'" and wf: "wf_state S st" and ok: "gate_ok S g"
  shows "wf_state S st'"
proof -
  from l obtain d_en q_old en d_rst rst clk x1 x2 x3 en_b rst_b clk_b where
    i: "inputs g = [d_en, q_old, en, d_rst, rst, clk]"
    and 1: "get_operand_bits c0 c1 d_en (width (output g)) st = Inr x1"
    and 2: "get_operand_bits c0 c1 d_rst (width (output g)) (snd x1) = Inr x2"
    and 3: "get_operand_bits c0 c1 q_old (width (output g)) (snd x2) = Inr x3"
    and 4: "dff_loop (fst x1) (fst x2) (fst x3) (fst (get_bits (output g) (snd x3))) en_b rst_b clk_b
              (py_range (width (output g)))
              (snd (get_bits clk (snd (get_bits rst (snd (get_bits en
                 (snd (get_bits (output g) (snd x3)))))))))  = Inr st'"
    by (auto simp: lower_dff_en_rst_def ebind_eq_Inr Let_def case_prod_beta split: list.splits)
  have ma: "map_of S (name d_en) = Some d_en" "map_of S (name q_old) = Some q_old"
    "map_of S (name en) = Some en" "map_of S (name d_rst) = Some d_rst"
    "map_of S (name rst) = Some rst" "map_of S (name clk) = Some clk"
    using ok i by (simp_all add: gate_ok_input)
  note w1 = get_operand_bits_wf_snd [OF 1 wf ma(1)]
  note w2 = get_operand_bits_wf_snd [OF 2 w1 ma(4)]
  note w3 = get_operand_bits_wf_snd [OF 3 w2 ma(2)]
  note w4 = get_bits_wf_snd [OF w3 gate_ok_output [OF ok]]
  note w5 = get_bits_wf_snd [OF w4 ma(3)]
  note w6 = get_bits_wf_snd [OF w5 ma(5)]
  note w7 = get_bits_wf_snd [OF w6 ma(6)]
  show ?thesis using 4 w7 by (rule dff_loop_wf)
qed

lemma lower_passthrough_wf:
  assumes l: "lower_passthrough c1 g st = Inr st'" and wf: "wf_state S st" and ok: "gate_ok S g"
  shows "wf_state S st'"
proof -
  from l obtain inp where i: "py_index (inputs g) 0 = Inr inp"
    by (auto simp: lower_passthrough_def ebind_eq_Inr)
  then have "inp \<in> set (inputs g)" by (auto simp: py_index_def split: if_splits)
  then have mi: "map_of S (name inp) = Some inp" using ok by (simp add: gate_ok_input)
  note w1 = get_bits_wf_snd [OF wf mi]
  note mo = gate_ok_output [OF ok]
  note w2 = get_bits_wf_snd [OF w1 mo]
  show ?thesis
    using l i w1 w2 wf mo
    by (auto simp: lower_passthrough_def ebind_eq_Inr Let_def case_prod_beta split: if_splits
        intro: buffer_to_out_wf)
qed

lemma lower_gate_wf:
  assumes "lower_gate c0 c1 g st = Inr st'" and "wf_state S st" and "gate_ok S g"
  shows "wf_state S st'"
  using assms
  by (auto simp: lower_gate_def Let_def split: if_splits
      intro: lower_bitwise_wf lower_eq_wf lower_mux_wf lower_add_wf lower_dff_en_rst_wf
        lower_passthrough_wf)

lemma emitted_subset:
  assumes "step_rel st2 stf"
  shows "set (emitted st1 st2) \<subseteq> set (map to_dict (new_gates stf))"
proof -
  from assms obtain gs where "new_gates stf = new_gates st2 @ gs" by (auto simp: step_rel_def)
  then show ?thesis by (auto simp: emitted_def dest: in_set_dropD)
qed

lemma lower_gates_segment:
  assumes "lower_gates c0 c1 gs st = Inr stf" and "wf_state S st" and "list_all (gate_ok S) gs"
    and "g \<in> set gs"
  shows "\<exists>st1 st2. wf_state S st1 \<and> lower_gate c0 c1 g st1 = Inr st2 \<and>
           set (emitted st1 st2) \<subseteq> set (map to_dict (new_gates stf))"
  using assms
proof (induction gs arbitrary: st)
  case Nil
  then show ?case by simp
next
  case (Cons g' gs)
  from Cons.prems(1) obtain sm where
    1: "lower_gate c0 c1 g' st = Inr sm" and 2: "lower_gates c0 c1 gs sm = Inr stf"
    by (auto simp: ebind_eq_Inr)
  show ?case
  proof (cases "g = g'")
    case True
    have "set (emitted st sm) \<subseteq> set (map to_dict (new_gates stf))"
      by (rule emitted_subset [OF lower_gates_step [OF 2]])
    with 1 Cons.prems(2) True show ?thesis by blast
  next
    case False
    have "wf_state S sm" using 1 Cons.prems(2,3) by (auto intro: lower_gate_wf)
    moreover have "list_all (gate_ok S) gs" "g \<in> set gs" using Cons.prems(3,4) False by auto
    ultimately show ?thesis using Cons.IH [OF 2] by blast
  qed
qed

lemma consistent_subset:
  "consistent env net \<Longrightarrow> set net' \<subseteq> set net \<Longrightarrow> consistent env net'"
  by (auto simp: consistent_def list_all_iff)

lemma precreate_wf:
  "wf_state S st \<Longrightarrow> list_all (\<lambda>s. map_of S (name s) = Some s) ss \<Longrightarrow> wf_state S (precreate ss st)"
  by (induction ss arbitrary: st) (auto intro: get_bits_wf_snd)

lemma precreate_gates [simp]: "gates (precreate ss st) = gates st"
  using precreate_step [of st ss] by (simp add: step_rel_def)

lemma map_of_dict_set: "map_of (dict_set k v al) k' = (if k' = k then Some v else map_of al k')"
  by (induction al) (auto simp: dict_set.simps)

lemma names_ok_map_of:
  "list_all (\<lambda>p. name (snd p) = fst p) al \<Longrightarrow> distinct (map fst al) \<Longrightarrow>
   list_all (\<lambda>s. map_of al (name s) = Some s) (map snd al)"
  by (induction al) (auto simp: list_all_iff rev_image_eqI)

lemma ensure_const_wf:
  assumes wf: "wf_module m" and e: "ensure_const n m = (c, m1)"
  shows "wf_module m1 \<and> name c = n \<and> gates m1 = gates m"
proof (cases "get_signal m n")
  case None
  then have m1: "m1 = add_signal (mk_signal n 1) m" and c: "c = mk_signal n 1"
    using e by (auto simp: ensure_const_def Let_def)
  have nn: "name (mk_signal n 1) = n" by (simp add: mk_signal_def)
  from None have mo: "map_of (signals m) n = None" by (simp add: get_signal_def)
  then have s: "signals m1 = signals m @ [(n, mk_signal n 1)]"
    by (simp add: m1 add_signal_def nn dict_set_fresh)
  have "n \<notin> fst ` set (signals m)" using mo by (simp add: map_of_eq_None_iff)
  then have d: "distinct (map fst (signals m1))" using wf by (simp add: s wf_module_def)
  have no: "names_ok m1" using wf by (simp add: names_ok_def s nn wf_module_def)
  have g: "gates m1 = gates m" by (simp add: m1 add_signal_def)
  have "list_all (gate_ok (signals m1)) (gates m1)"
    using wf by (auto simp: wf_module_def g s gate_ok_def list_all_iff intro: map_of_append_Some)
  then show ?thesis using d no g c nn by (simp add: wf_module_def)
next
  case (Some s)
  then have "m1 = m" "c = s" using e by (simp_all add: ensure_const_def)
  moreover have "name s = n" using wf Some by (auto simp: wf_module_def intro: get_signal_name)
  ultimately show ?thesis using wf by simp
qed

lemma init_state_wf: "wf_module m \<Longrightarrow> wf_state (signals m) (init_state m)"
  by (simp add: wf_state_def init_state_def wf_module_def names_ok_def)

lemma run_glue:
  assumes r: "run m = Inr m'" and wf: "wf_module m" and g: "g \<in> set (gates m)"
  shows "\<exists>c0 c1 S st1 st2. name c0 = ''CONST0'' \<and> name c1 = ''CONST1'' \<and> wf_state S st1 \<and>
           gate_ok S g \<and> lower_gate c0 c1 g st1 = Inr st2 \<and>
           set (emitted st1 st2) \<subseteq> set (map to_dict (gates m'))"
proof -
  obtain c0 m1 where e0: "ensure_const ''CONST0'' m = (c0, m1)" by (cases "ensure_const ''CONST0'' m")
  obtain c1 m2 where e1: "ensure_const ''CONST1'' m1 = (c1, m2)" by (cases "ensure_const ''CONST1'' m1")
  note f0 = ensure_const_wf [OF wf e0]
  then have wf1: "wf_module m1" by simp
  note f1 = ensure_const_wf [OF wf1 e1]
  then have wf2: "wf_module m2" by simp
  let ?S = "signals m2"
  let ?st1 = "precreate (map snd ?S) (init_state m2)"
  have "list_all (\<lambda>s. map_of ?S (name s) = Some s) (map snd ?S)"
    using wf2 by (intro names_ok_map_of) (simp_all add: wf_module_def names_ok_def)
  then have w1: "wf_state ?S ?st1" by (intro precreate_wf init_state_wf wf2)
  have gs: "gates (init_state m2) = gates m" using f0 f1 by (simp add: init_state_def)
  have sg: "signals (init_state m2) = ?S" by (simp add: init_state_def)
  from r obtain stf where
    lg: "lower_gates c0 c1 (gates m) ?st1 = Inr stf" and m': "gates m' = new_gates stf"
    by (auto simp: run_def e0 e1 Let_def ebind_eq_Inr gs sg)
  have ok: "list_all (gate_ok ?S) (gates m)" using wf2 f1 f0 by (simp add: wf_module_def)
  from lower_gates_segment [OF lg w1 ok g] obtain st1 st2 where
    a: "wf_state ?S st1" "lower_gate c0 c1 g st1 = Inr st2"
    "set (emitted st1 st2) \<subseteq> set (map to_dict (new_gates stf))" by blast
  have b: "gate_ok ?S g" using ok g by (simp add: list_all_iff)
  have n: "name c0 = ''CONST0''" "name c1 = ''CONST1''" using f0 f1 by simp_all
  show ?thesis using a b n unfolding m' by blast
qed


lemma gate_holds_simps [simp]:
  "gate_holds env (mk_gate ''XOR'' [a, b] out) = (env out = (env a \<noteq> env b))"
  "gate_holds env (mk_gate ''AND'' [a, b] out) = (env out = (env a \<and> env b))"
  "gate_holds env (mk_gate ''OR'' [a, b] out) = (env out = (env a \<or> env b))"
  "gate_holds env (mk_gate ''NOT'' [a] out) = (env out = (\<not> env a))"
  "gate_holds env (mk_gate ''MUX'' [s, t, f] out) = (env out = ((env s \<and> env t) \<or> (\<not> env s \<and> env f)))"
  "gate_holds env (mk_gate ''DFF'' [d, clk] out) = True"
  by (simp_all add: gate_holds_def mk_gate_def table_def)

lemma consistent_simps [simp]:
  "consistent env [] = True"
  "consistent env (g # gs) = (gate_holds env g \<and> consistent env gs)"
  "consistent env (xs @ ys) = (consistent env xs \<and> consistent env ys)"
  by (simp_all add: consistent_def)

lemma full_adder_sem:
  assumes "consistent env (full_adder a b c s k)"
  shows "env s = ((env a \<noteq> env b) \<noteq> env c)"
    and "env (tmp_name ''or'' (k + 5)) = (env a \<and> env b \<or> env a \<and> env c \<or> env b \<and> env c)"
  using assms by (auto simp: full_adder_def)

lemma ripple_net_sem:
  "consistent env (ripple_net as bs ss is c k) \<Longrightarrow>
   bits_value (map (\<lambda>i. env (ss ! i)) is) +
     2 ^ length is * (if env (carry_out is c k) then 1 else 0) =
   bits_value (map (\<lambda>i. env (as ! i)) is) + bits_value (map (\<lambda>i. env (bs ! i)) is) +
     (if env c then 1 else 0)"
proof (induction "is" arbitrary: c k)
  case Nil
  then show ?case by simp
next
  case (Cons i "is")
  from Cons.prems have fa: "consistent env (full_adder (as ! i) (bs ! i) c (ss ! i) k)"
    and rest: "consistent env (ripple_net as bs ss is (tmp_name ''or'' (k + 5)) (k + 6))"
    by simp_all
  note ih = Cons.IH [OF rest]
  note s = full_adder_sem [OF fa]
  let ?a = "env (as ! i)" and ?b = "env (bs ! i)" and ?c = "env c"
  have "(if (?a \<noteq> ?b) \<noteq> ?c then 1 else 0) + 2 * (if ?a \<and> ?b \<or> ?a \<and> ?c \<or> ?b \<and> ?c then 1 else 0) =
        (if ?a then 1 else 0) + (if ?b then 1 else 0) + (if ?c then 1 else (0::nat))"
    by (rule bool_full_adder)
  with ih s show ?case by (simp add: algebra_simps)
qed

section \<open>Claims on the Bit-Blasting pass\<close>

text \<open>
  C1, as stated: after the pass every gate is a primitive and every Signal of the mapping
  has width 1. The second half fails: a bus stays in the mapping with its width. On the
  Module that holds the 2-bit Signal \<open>a\<close> and no gate, the pass returns a Module in which
  \<open>a\<close> is still stored with width 2.
\<close>

theorem C1_counterexample:
  "run bus_module = Inr bus_module_out \<and>
   (''a'', mk_signal ''a'' 2) \<in> set (signals bus_module_out) \<and>
   width (mk_signal ''a'' 2) \<noteq> 1"
  by (simp add: run_bus_module) (simp add: bus_module_out_def mk_signal_def)

text \<open>
  C1, amended: for every Module the pass produces, the operation tag of every gate is in
  the closed set AND, OR, XOR, NOT, MUX, DFF, BUF, and every entry of the signal mapping
  either was in the mapping before the pass or has width exactly 1.
\<close>

theorem C1_primitive_gates_and_added_widths:
  assumes "run m = Inr m'"
  shows "(\<forall>g \<in> set (gates m').
            op_type g \<in> set [''AND'', ''OR'', ''XOR'', ''NOT'', ''MUX'', ''DFF'', ''BUF'']) \<and>
         (\<forall>p \<in> set (signals m'). p \<in> set (signals m) \<or> width (snd p) = 1)"
proof -
  from run_result [OF assms] obtain ext where
    r: "signals m' = signals m @ ext" "\<forall>p \<in> set ext. added_by_pass p"
       "\<forall>g \<in> set (gates m'). prim_gate g"
    by blast
  have "\<forall>g \<in> set (gates m').
          op_type g \<in> set [''AND'', ''OR'', ''XOR'', ''NOT'', ''MUX'', ''DFF'', ''BUF'']"
    using r(3) by (auto simp: prim_gate_def)
  moreover have "\<forall>p \<in> set (signals m'). p \<in> set (signals m) \<or> width (snd p) = 1"
    using r(1,2) by (auto dest: added_by_pass_width)
  ultimately show ?thesis by blast
qed

theorem C1_witness:
  "run not_module = Inr not_module_out \<and>
   list_all (\<lambda>g. op_type g \<in> set [''AND'', ''OR'', ''XOR'', ''NOT'', ''MUX'', ''DFF'', ''BUF''])
     (gates not_module_out) \<and>
   list_all (\<lambda>p. p \<in> set (signals not_module) \<or> width (snd p) = 1) (signals not_module_out)"
  using C1_primitive_gates_and_added_widths [OF run_not_module] run_not_module
  unfolding list_all_iff by blast

text \<open>
  C10: the pass removes and renames no entry of the signal mapping. The mapping after the
  pass starts with the mapping before it, entry for entry, so every name still leads to
  the Signal it led to, with its width and flags; every entry behind that was stored by
  the pass and has width 1; the name of the Module is kept, and the gate sequence holds
  only gates built by the primitive constructors.
\<close>

theorem C10_signal_mapping_only_grows:
  assumes "run m = Inr m'"
  shows "take (length (signals m)) (signals m') = signals m \<and>
         (\<forall>k s. get_signal m k = Some s \<longrightarrow> get_signal m' k = Some s) \<and>
         (\<forall>p \<in> set (drop (length (signals m)) (signals m')).
            added_by_pass p \<and> width (snd p) = 1) \<and>
         module_name m' = module_name m \<and>
         (\<forall>g \<in> set (gates m'). prim_gate g)"
proof -
  from run_result [OF assms] obtain ext where
    r: "signals m' = signals m @ ext" "\<forall>p \<in> set ext. added_by_pass p"
       "\<forall>g \<in> set (gates m'). prim_gate g" "module_name m' = module_name m"
    by blast
  have "\<forall>k s. get_signal m k = Some s \<longrightarrow> get_signal m' k = Some s"
    using r(1) by (simp add: get_signal_def map_add_def)
  moreover have "\<forall>p \<in> set (drop (length (signals m)) (signals m')).
            added_by_pass p \<and> width (snd p) = 1"
    using r(1,2) by (simp add: added_by_pass_width)
  ultimately show ?thesis using r by simp
qed

theorem C10_witness:
  "run not_module = Inr not_module_out \<and>
   take (length (signals not_module)) (signals not_module_out) = signals not_module \<and>
   get_signal not_module_out ''y'' = Some (mk_signal ''y'' 1) \<and>
   list_all (\<lambda>p. added_by_pass p \<and> width (snd p) = 1)
     (drop (length (signals not_module)) (signals not_module_out)) \<and>
   module_name not_module_out = module_name not_module \<and>
   list_all prim_gate (gates not_module_out)"
proof -
  have "get_signal not_module ''y'' = Some (mk_signal ''y'' 1)"
    by (simp add: get_signal_def not_module_def)
  then show ?thesis
    using C10_signal_mapping_only_grows [OF run_not_module] run_not_module
    unfolding list_all_iff by blast
qed

end
